theory Spec2Isabelle
  imports Main "HOL-Library.Multiset"
begin

section \<open>Strings\<close>

text \<open>
  JavaScript strings are modelled as \<open>string\<close>: one \<open>char\<close> stands for one code unit.
  The functions below are the string primitives the sources call.
\<close>

text \<open>\<open>s.split(c)\<close> for a one-character separator: never empty, \<open>"".split(c) = [""]\<close>.\<close>

fun split_on :: "char \<Rightarrow> string \<Rightarrow> string list" where
  "split_on c [] = [[]]"
| "split_on c (x # xs) =
     (if x = c then [] # split_on c xs
      else (case split_on c xs of [] \<Rightarrow> [[x]] | h # t \<Rightarrow> (x # h) # t))"

text \<open>\<open>arr.pop()!\<close> on the result of a split, which always has a last element.\<close>

definition pop :: "string list \<Rightarrow> string" where
  "pop xs = last xs"

text \<open>White space removed by \<open>String.prototype.trim\<close>, among the code units of \<open>char\<close>:
  tab, line feed, vertical tab, form feed, carriage return, space, no-break space.\<close>

definition is_space :: "char \<Rightarrow> bool" where
  "is_space c = (c \<in> set [CHR 0x09, CHR 0x0A, CHR 0x0B, CHR 0x0C, CHR 0x0D, CHR 0x20, CHR 0xA0])"

definition trim :: "string \<Rightarrow> string" where
  "trim s = rev (dropWhile is_space (rev (dropWhile is_space s)))"

section \<open>src/lib/filename.ts: sanitizeFilename\<close>

text \<open>The character class \<open>[a-zA-Z0-9._-]\<close>.\<close>

definition safe_char :: "char \<Rightarrow> bool" where
  "safe_char c =
     (c \<in> set ''abcdefghijklmnopqrstuvwxyzABCDEFGHIJKLMNOPQRSTUVWXYZ0123456789._-'')"

text \<open>
  \<^verbatim>\<open>const base = name.split("/").pop()!.split("\\").pop()!\<close>
  \<^verbatim>\<open>const cleaned = base.replace(/[^a-zA-Z0-9._-]/g, "_")\<close>
  \<^verbatim>\<open>const finalName = cleaned.replace(/^_+/, "").trim() || "file"\<close>
\<close>

definition sanitizeFilename :: "string \<Rightarrow> string" where
  "sanitizeFilename name =
     (let base = pop (split_on (CHR 0x5C) (pop (split_on (CHR ''/'') name)));
          cleaned = map (\<lambda>c. if safe_char c then c else CHR ''_'') base;
          stripped = trim (dropWhile (\<lambda>c. c = CHR ''_'') cleaned)
      in if stripped = [] then ''file'' else stripped)"

text \<open>The cleaned base name with its leading underscores removed: the value that is trimmed
  and replaced by the fallback when empty.\<close>

definition clean_base :: "string \<Rightarrow> string" where
  "clean_base name = dropWhile (\<lambda>c. c = CHR ''_'')
     (map (\<lambda>c. if safe_char c then c else CHR ''_'')
        (pop (split_on (CHR 0x5C) (pop (split_on (CHR ''/'') name)))))"

text \<open>\<open>toPublicUrl\<close>: the same-origin API path of a stored file.\<close>

definition toPublicUrl :: "string \<Rightarrow> string" where
  "toPublicUrl filename = ''/api/images/file/'' @ sanitizeFilename filename"

text \<open>\<open>getSafeFilePath\<close> is \<open>path.join(getUploadsDir(), sanitizeFilename(filename))\<close>. The
  uploads directory is fixed and a sanitized name has no separator, so the path is
  determined by the sanitized name and is represented by it.\<close>

definition getSafeFilePath :: "string \<Rightarrow> string" where
  "getSafeFilePath filename = sanitizeFilename filename"

section \<open>src/lib/db.ts: the metadata store\<close>

record ImageMeta =
  id' :: string
  filename :: string
  url :: string
  size' :: nat
  mime :: string
  createdAt :: string
  updatedAt :: string

text \<open>
  \<open>DbShape.images\<close> is a plain object keyed by filename; the map gives its own properties,
  which are what \<open>JSON.stringify\<close> writes and \<open>JSON.parse\<close> reads back.
\<close>

type_synonym DbShape = "string \<rightharpoonup> ImageMeta"

text \<open>
  \<open>state.images[key] = next\<close> on such an object. For every key but \<open>__proto__\<close> it sets
  the own property. For \<open>__proto__\<close> it sets the own property only when there is one (a
  document that was parsed with this key); otherwise it is the setter inherited from
  \<open>Object.prototype\<close> that runs: \<open>next\<close> becomes the prototype, and no own property, so no
  record, is added.
\<close>

definition assign :: "DbShape \<Rightarrow> string \<Rightarrow> ImageMeta \<Rightarrow> DbShape" where
  "assign imgs key v = (if key = ''__proto__'' \<and> imgs key = None then imgs else imgs(key \<mapsto> v))"

text \<open>
  The module state: the parsed content of \<open>images.json\<close>, and the promise \<open>writeQueue\<close>,
  \<open>None\<close> while it is fulfilled and \<open>Some e\<close> once a queued operation has thrown \<open>e\<close>.
  A callback chained with \<open>then\<close> on a rejected promise is not called, and the chained
  promise is rejected with the same reason.
\<close>

record store =
  images :: DbShape
  writeQueue :: "string option"

text \<open>
  What the surroundings give one operation: the clock (\<open>new Date().toISOString()\<close>), the
  value of \<open>randomUUID()\<close>, and whether \<open>fs.writeFile\<close> of the upload, \<open>readDb\<close> or
  \<open>writeDb\<close> throws, with the message of the error. \<open>fs.writeFile\<close> opens its target with
  flag \<open>w\<close> and can fail before or after it has created or truncated it, so a write that
  throws comes with what it leaves behind: for the upload, the content of the target
  afterwards (\<open>None\<close> when there is no such file); for the document, the records a later read
  finds.
\<close>

record env =
  now :: string
  uuid :: string
  writeFile_throws :: "(string \<times> nat list option) option"
  readDb_throws :: "string option"
  writeDb_throws :: "(string \<times> DbShape) option"

text \<open>
  \<open>db.upsert\<close>. \<open>existing\<close> is \<open>state.images[meta.filename]\<close>: the own property when there is
  one. Without an own property the lookup gives \<open>undefined\<close> or, for the names of
  \<open>Object.prototype\<close>, an inherited object that has neither \<open>id\<close> nor \<open>createdAt\<close>: in both
  cases \<open>existing?.id ?? randomUUID()\<close> and \<open>existing?.createdAt ?? now\<close> take the right-hand
  value, as for \<open>None\<close> here.
\<close>

definition upsert ::
  "env \<Rightarrow> string \<Rightarrow> string \<Rightarrow> nat \<Rightarrow> string \<Rightarrow> store \<Rightarrow> (string + unit) \<times> store" where
  "upsert e fname u sz mi st =
     (case writeQueue st of
        Some err \<Rightarrow> (Inl err, st)
      | None \<Rightarrow>
         (case readDb_throws e of
            Some err \<Rightarrow> (Inl err, st\<lparr>writeQueue := Some err\<rparr>)
          | None \<Rightarrow>
             (let existing = images st fname;
                  next = \<lparr>id' = (case existing of Some x \<Rightarrow> id' x | None \<Rightarrow> uuid e),
                          filename = fname, url = u, size' = sz, mime = mi,
                          createdAt = (case existing of Some x \<Rightarrow> createdAt x | None \<Rightarrow> now e),
                          updatedAt = now e\<rparr>
              in (case writeDb_throws e of
                    Some (err, left) \<Rightarrow> (Inl err, st\<lparr>images := left, writeQueue := Some err\<rparr>)
                  | None \<Rightarrow> (Inr (), st\<lparr>images := assign (images st) fname next\<rparr>)))))"

section \<open>The upload route (POST) of the Next.js backend\<close>

text \<open>The uploads directory (entry name to bytes) and the store.\<close>

record world =
  files :: "string \<rightharpoonup> nat list"
  db :: store

text \<open>A \<open>File\<close> of the form data: \<open>file.name\<close>, \<open>file.type\<close>, and the bytes of
  \<open>file.arrayBuffer()\<close>.\<close>

record File =
  file_name :: string
  file_type :: string
  file_bytes :: "nat list"

text \<open>One entry of \<open>results\<close>; its status is typed
  \<^verbatim>\<open>"uploaded" | "skipped" | "overwritten"\<close> in the source.\<close>

record UploadResult =
  r_filename :: string
  r_url :: "string option"
  r_status :: string
  r_error :: "string option"

text \<open>The \<open>catch\<close> of the loop body:
  \<^verbatim>\<open>results.push({ filename: originalName, status: "skipped", error: e?.message || "Unknown error" })\<close>\<close>

definition caught :: "string \<Rightarrow> string \<Rightarrow> UploadResult" where
  "caught originalName err =
     \<lparr>r_filename = originalName, r_url = None, r_status = ''skipped'',
      r_error = Some (if err = [] then ''Unknown error'' else err)\<rparr>"

text \<open>The body of \<^verbatim>\<open>for (const file of files)\<close>.\<close>

definition upload_file :: "bool \<Rightarrow> env \<Rightarrow> File \<Rightarrow> world \<Rightarrow> UploadResult \<times> world" where
  "upload_file overwrite e f w =
     (let originalName = sanitizeFilename (if file_name f = [] then ''file'' else file_name f);
          destPath = getSafeFilePath originalName;
          exists = (files w destPath \<noteq> None)
      in if exists \<and> \<not> overwrite then
           (\<lparr>r_filename = originalName, r_url = None, r_status = ''skipped'',
             r_error = Some ''File exists. Set overwrite=true to replace.''\<rparr>, w)
         else
           (case writeFile_throws e of
              Some (err, left) \<Rightarrow>
                (caught originalName err, w\<lparr>files := (files w)(destPath := left)\<rparr>)
            | None \<Rightarrow>
               (let w1 = w\<lparr>files := (files w)(destPath \<mapsto> file_bytes f)\<rparr>;
                    u = toPublicUrl originalName
                in (case upsert e originalName u (length (file_bytes f))
                           (if file_type f = [] then ''application/octet-stream'' else file_type f)
                           (db w1) of
                      (Inl err, st) \<Rightarrow> (caught originalName err, w1\<lparr>db := st\<rparr>)
                    | (Inr _, st) \<Rightarrow>
                        (\<lparr>r_filename = originalName, r_url = Some u,
                          r_status = (if exists then ''overwritten'' else ''uploaded''),
                          r_error = None\<rparr>, w1\<lparr>db := st\<rparr>)))))"

text \<open>The loop over the files of the request, each with what its surroundings give it.\<close>

fun upload_loop :: "bool \<Rightarrow> (env \<times> File) list \<Rightarrow> world \<Rightarrow> UploadResult list \<times> world" where
  "upload_loop overwrite [] w = ([], w)"
| "upload_loop overwrite ((e, f) # rest) w =
     (case upload_file overwrite e f w of
        (r, w') \<Rightarrow> (case upload_loop overwrite rest w' of (rs, w'') \<Rightarrow> (r # rs, w'')))"

datatype upload_response = Status400 string | Results "UploadResult list"

definition upload_POST ::
  "bool \<Rightarrow> (env \<times> File) list \<Rightarrow> world \<Rightarrow> upload_response \<times> world" where
  "upload_POST overwrite fs w =
     (if fs = [] then (Status400 ''No files provided'', w)
      else (case upload_loop overwrite fs w of (rs, w') \<Rightarrow> (Results rs, w')))"

definition no_faults :: "env \<Rightarrow> bool" where
  "no_faults e = (writeFile_throws e = None \<and> readDb_throws e = None \<and> writeDb_throws e = None)"

text \<open>The name under which the route stores a file.\<close>

definition stored_name :: "File \<Rightarrow> string" where
  "stored_name f = sanitizeFilename (if file_name f = [] then ''file'' else file_name f)"

text \<open>Two states that differ at most in what is stored under one name.\<close>

definition same_but :: "string \<Rightarrow> world \<Rightarrow> world \<Rightarrow> bool" where
  "same_but k w w' = (db w = db w' \<and> (\<forall>n. n \<noteq> k \<longrightarrow> files w n = files w' n))"

section \<open>CSV export\<close>

text \<open>\<open>String(n)\<close> for a size in bytes: the decimal digits of a natural number.\<close>

definition digit :: "nat \<Rightarrow> char" where
  "digit d = ''0123456789'' ! d"

fun string_of_nat :: "nat \<Rightarrow> string" where
  "string_of_nat n =
     (if n < 10 then [digit n] else string_of_nat (n div 10) @ [digit (n mod 10)])"

text \<open>\<open>Array.prototype.join\<close> on strings.\<close>

fun join :: "string \<Rightarrow> string list \<Rightarrow> string" where
  "join sep [] = []"
| "join sep [x] = x"
| "join sep (x # y # ys) = x @ sep @ join sep (y # ys)"

text \<open>
  src/app/api/images/list/route.ts, \<open>GET\<close> with \<open>format=csv\<close>:
  \<^verbatim>\<open>const header = "filename,url,size,mime,createdAt,updatedAt"\<close>
  \<^verbatim>\<open>const rows = images.map((m) => [m.filename, m.url, m.size, m.mime, m.createdAt, m.updatedAt].join(","))\<close>
  \<^verbatim>\<open>const csv = [header, ...rows].join("\n")\<close>
\<close>

definition route_csv :: "ImageMeta list \<Rightarrow> string" where
  "route_csv imgs =
     (let header = ''filename,url,size,mime,createdAt,updatedAt'';
          rows = map (\<lambda>m. join '','' [filename m, url m, string_of_nat (size' m), mime m,
                                      createdAt m, updatedAt m]) imgs
      in join [CHR 0x0A] (header # rows))"

text \<open>The \<open>ImageMeta\<close> of src/components/image-table.tsx, with optional \<open>mime\<close> and \<open>type\<close>.\<close>

record TableImage =
  t_filename :: string
  t_url :: string
  t_size :: nat
  t_mime :: "string option"
  t_type :: "string option"
  t_createdAt :: string
  t_updatedAt :: string

text \<open>\<open>a || b\<close> on optional strings: \<open>undefined\<close> and the empty string are falsy.\<close>

definition or_else :: "string option \<Rightarrow> string option \<Rightarrow> string option" where
  "or_else a b = (case a of None \<Rightarrow> b | Some x \<Rightarrow> if x = [] then b else a)"

text \<open>The double quote, and \<^verbatim>\<open>`"${String(v).replace(/"/g, '""')}"`\<close>.\<close>

definition dq :: char where
  "dq = CHR 0x22"

definition csv_quote :: "string \<Rightarrow> string" where
  "csv_quote v = dq # concat (map (\<lambda>c. if c = dq then [dq, dq] else [c]) v) @ [dq]"

text \<open>\<open>downloadCsv\<close> of the table component.\<close>

definition downloadCsv :: "TableImage list \<Rightarrow> string" where
  "downloadCsv imgs =
     (let header = [''filename'', ''url'', ''size'', ''type'', ''createdAt'', ''updatedAt''];
          rows = map (\<lambda>i. [t_filename i, t_url i, string_of_nat (t_size i),
                            (case or_else (or_else (t_type i) (t_mime i)) (Some []) of
                               Some x \<Rightarrow> x | None \<Rightarrow> []),
                            t_createdAt i, t_updatedAt i]) imgs
      in join [CHR 0x0A] (map (\<lambda>r. join '','' (map csv_quote r)) (header # rows)))"

section \<open>Bulk delete (POST /delete of the Express backend)\<close>

text \<open>
  What the platform gives the handler. \<open>url_pathname item\<close> is \<open>new URL(item).pathname\<close>,
  \<open>None\<close> when the constructor throws; \<open>decodeURIComponent\<close> is \<open>None\<close> when it throws;
  \<open>upload_path name\<close> is \<open>path.join(UPLOADS_DIR, name)\<close>; \<open>unlink_throws\<close> tells for which
  paths \<open>fs.unlinkSync\<close> throws, \<open>db_throws\<close> for which names the lowdb calls throw.
\<close>

record platform =
  url_pathname :: "string \<Rightarrow> string option"
  decodeURIComponent :: "string \<Rightarrow> string option"
  upload_path :: "string \<Rightarrow> string"
  unlink_throws :: "string \<Rightarrow> bool"
  db_throws :: "string \<Rightarrow> bool"

text \<open>\<open>path.basename\<close> (POSIX): trailing slashes are dropped, then the part after the last
  slash is taken.\<close>

definition basename :: "string \<Rightarrow> string" where
  "basename p = pop (split_on (CHR ''/'') (rev (dropWhile (\<lambda>c. c = CHR ''/'') (rev p))))"

text \<open>
  \<^verbatim>\<open>try { const u = new URL(item); return decodeURIComponent(path.basename(u.pathname)) }\<close>
  \<^verbatim>\<open>catch { return item.trim() }\<close>
  The JavaScript variant of the backend returns \<^verbatim>\<open>String(item || "").trim()\<close> in the
  \<open>catch\<close>, which is the same on strings.
\<close>

definition toFilename :: "platform \<Rightarrow> string \<Rightarrow> string" where
  "toFilename pf item =
     (case url_pathname pf item of
        None \<Rightarrow> trim item
      | Some p \<Rightarrow>
         (case decodeURIComponent pf (basename p) of
            None \<Rightarrow> trim item
          | Some f \<Rightarrow> f))"

text \<open>\<open>Array.from(new Set(xs))\<close>: the first occurrence of each element, in order.\<close>

definition from_Set :: "'a list \<Rightarrow> 'a list" where
  "from_Set xs = rev (remdups (rev xs))"

text \<open>\<^verbatim>\<open>Array.from(new Set(rawItems.map(toFilename).filter(Boolean)))\<close>\<close>

definition resolve_filenames :: "platform \<Rightarrow> string list \<Rightarrow> string list" where
  "resolve_filenames pf rawItems = from_Set (filter (\<lambda>s. s \<noteq> []) (map (toFilename pf) rawItems))"

text \<open>The rows of the json-server database and the state of the Express backend: the
  paths that exist on disk and the \<open>images\<close> array.\<close>

record DbRow =
  d_filename :: string
  d_url :: string
  d_size :: nat
  d_type :: string
  d_createdAt :: string
  d_updatedAt :: string

record xworld =
  x_files :: "string set"
  x_images :: "DbRow list"

record DeleteEntry =
  e_filename :: string
  fileDeleted :: bool
  recordDeleted :: bool

text \<open>The body of \<open>filenames.forEach\<close>; \<open>Inl\<close> when a lowdb call throws, which ends the loop
  in the \<open>catch\<close> of the handler.\<close>

fun delete_each :: "platform \<Rightarrow> string list \<Rightarrow> xworld \<Rightarrow> (string + DeleteEntry list) \<times> xworld" where
  "delete_each pf [] w = (Inr [], w)"
| "delete_each pf (name # rest) w =
     (let filePath = upload_path pf name;
          deleted = (filePath \<in> x_files w \<and> \<not> unlink_throws pf filePath);
          w1 = (if deleted then w\<lparr>x_files := x_files w - {filePath}\<rparr> else w)
      in if db_throws pf name then (Inl ''Delete failed'', w1)
         else
           (let hadRecord = list_ex (\<lambda>r. d_filename r = name) (x_images w1);
                w2 = w1\<lparr>x_images := filter (\<lambda>r. d_filename r \<noteq> name) (x_images w1)\<rparr>
            in (case delete_each pf rest w2 of
                  (Inl e, w3) \<Rightarrow> (Inl e, w3)
                | (Inr rs, w3) \<Rightarrow>
                    (Inr (\<lparr>e_filename = name, fileDeleted = deleted, recordDeleted = hadRecord\<rparr> # rs),
                     w3))))"

datatype delete_response =
  D400 string | D200 "DeleteEntry list" nat | D500 string

text \<open>The handler: \<open>items\<close> is \<open>None\<close> when \<open>req.body.items\<close> is missing or not an array.\<close>

definition delete_POST :: "platform \<Rightarrow> string list option \<Rightarrow> xworld \<Rightarrow> delete_response \<times> xworld" where
  "delete_POST pf items w =
     (let rawItems = (case items of Some xs \<Rightarrow> xs | None \<Rightarrow> [])
      in if rawItems = [] then (D400 ''items array required'', w)
         else
           (let filenames = resolve_filenames pf rawItems
            in (case delete_each pf filenames w of
                  (Inl e, w') \<Rightarrow> (D500 e, w')
                | (Inr results, w') \<Rightarrow> (D200 results (length results), w'))))"

text \<open>
  A stand-in for the platform on plain inputs, for the concrete examples only; the general
  theorems hold for every platform. The parser accepts \<open>http://host/path\<close> and
  \<open>https://host/path\<close> with a non-empty host, cuts the path at \<open>?\<close> or \<open>#\<close>, and rejects
  every string without one of these two prefixes, as \<open>new URL\<close> rejects a string without a
  scheme. The decoder replaces \<open>%XX\<close> for bytes below 0x80 and fails on a \<open>%\<close> that is not
  followed by two hexadecimal digits, as \<open>decodeURIComponent\<close> does; multi-byte sequences
  are not covered.
\<close>

definition hexval :: "char \<Rightarrow> nat option" where
  "hexval c =
     (let n = (of_char c :: nat) in
      if 48 \<le> n \<and> n \<le> 57 then Some (n - 48)
      else if 65 \<le> n \<and> n \<le> 70 then Some (n - 55)
      else if 97 \<le> n \<and> n \<le> 102 then Some (n - 87)
      else None)"

fun sample_decode :: "string \<Rightarrow> string option" where
  "sample_decode [] = Some []"
| "sample_decode (c # cs) =
     (if c = CHR ''%'' then
        (case cs of
           h # l # rest \<Rightarrow>
             (case (hexval h, hexval l) of
                (Some a, Some b) \<Rightarrow>
                  (if 16 * a + b < 128
                   then map_option ((#) (char_of (16 * a + b))) (sample_decode rest)
                   else None)
              | _ \<Rightarrow> None)
         | _ \<Rightarrow> None)
      else map_option ((#) c) (sample_decode cs))"

definition sample_path :: "string \<Rightarrow> string option" where
  "sample_path rest =
     (let host = takeWhile (\<lambda>c. c \<notin> set ''/?#'') rest;
          p = takeWhile (\<lambda>c. c \<notin> set ''?#'') (dropWhile (\<lambda>c. c \<notin> set ''/?#'') rest)
      in if host = [] then None else Some (if p = [] then ''/'' else p))"

definition sample_url_pathname :: "string \<Rightarrow> string option" where
  "sample_url_pathname s =
     (let t = trim s
      in if take 7 t = ''http://'' then sample_path (drop 7 t)
         else if take 8 t = ''https://'' then sample_path (drop 8 t)
         else None)"

definition node :: platform where
  "node = \<lparr>url_pathname = sample_url_pathname, decodeURIComponent = sample_decode,
           upload_path = (\<lambda>name. ''/tmp/uploads/'' @ name),
           unlink_throws = (\<lambda>p. False), db_throws = (\<lambda>n. False)\<rparr>"

section \<open>The upload coordinator (Uploader component)\<close>

record Outcome =
  o_filename :: string
  o_status :: string
  o_error :: "string option"

text \<open>One entry of \<open>uploaded\<close> in the answer of \<open>POST /upload\<close>, as the client reads it.\<close>

record UploadedItem =
  i_status :: "string option"
  i_error :: "string option"

text \<open>
  How the request of one file ends: \<open>fetch\<close> (or \<open>res.json()\<close> of an ok answer) rejects with
  a message; the answer is not ok and its body has the field \<open>error\<close> or not; the answer is
  ok and its body has the list \<open>uploaded\<close> (empty when absent).
\<close>

datatype fetched =
  Rejects string
| NotOk "string option"
| Ok "UploadedItem list"

text \<open>\<open>a || d\<close> for an optional string and a default.\<close>

definition or_default :: "string option \<Rightarrow> string \<Rightarrow> string" where
  "or_default a d = (case a of None \<Rightarrow> d | Some x \<Rightarrow> if x = [] then d else x)"

text \<open>\<open>uploadOne\<close>: \<open>Inl\<close> is a rejected promise with its message.\<close>

definition uploadOne :: "File \<Rightarrow> fetched \<Rightarrow> string + Outcome" where
  "uploadOne file res =
     (case res of
        Rejects msg \<Rightarrow> Inl msg
      | NotOk err \<Rightarrow>
          Inr \<lparr>o_filename = file_name file, o_status = ''error'',
               o_error = Some (or_default err (''Failed '' @ file_name file))\<rparr>
      | Ok uploaded \<Rightarrow>
          (let item = (case uploaded of [] \<Rightarrow> \<lparr>i_status = None, i_error = None\<rparr> | x # _ \<Rightarrow> x)
           in Inr \<lparr>o_filename = file_name file,
                    o_status = or_default (i_status item) ''uploaded'',
                    o_error = i_error item\<rparr>))"

text \<open>
  The variables of \<open>runWithConcurrency\<close>: \<open>idx\<close>, \<open>active\<close>, \<open>results\<close>, and the value the
  promise was resolved with. \<open>running\<close> are the dispatched workers whose promise is pending;
  \<open>settled\<close> are those whose \<open>then\<close> or \<open>catch\<close> callback has run and whose \<open>finally\<close>
  callback is still due.
\<close>

record pool =
  idx :: nat
  active :: int
  running :: "File list"
  settled :: "File list"
  results :: "Outcome list"
  resolved :: "Outcome list option"

definition init :: pool where
  "init = \<lparr>idx = 0, active = 0, running = [], settled = [], results = [], resolved = None\<rparr>"

text \<open>
  The numbers that reach the pool as its limit. The state \<open>concurrency\<close> starts at 8 and is
  set by \<^verbatim>\<open>setConcurrency(Number.parseInt(e.target.value || "1", 10))\<close>: \<open>parseInt\<close> returns
  an integer, an infinity, or \<open>NaN\<close> when the text does not begin with a digit after an
  optional sign, as for \<open>".5"\<close>.
\<close>

datatype number = Num int | Infinity | MinusInfinity | NaN

text \<open>\<open>a < b\<close> and \<open>a <= b\<close> for an integer \<open>a\<close> and a number \<open>b\<close>; every comparison with
  \<open>NaN\<close> is false.\<close>

fun js_less :: "int \<Rightarrow> number \<Rightarrow> bool" where
  "js_less a (Num b) = (a < b)"
| "js_less a Infinity = True"
| "js_less a MinusInfinity = False"
| "js_less a NaN = False"

fun js_less_eq :: "int \<Rightarrow> number \<Rightarrow> bool" where
  "js_less_eq a (Num b) = (a \<le> b)"
| "js_less_eq a Infinity = True"
| "js_less_eq a MinusInfinity = False"
| "js_less_eq a NaN = False"

text \<open>\<open>Math.max(a, b)\<close> for an integer \<open>a\<close>: it is \<open>NaN\<close> when an argument is \<open>NaN\<close>.\<close>

fun Math_max :: "int \<Rightarrow> number \<Rightarrow> number" where
  "Math_max a (Num b) = Num (max a b)"
| "Math_max a Infinity = Infinity"
| "Math_max a MinusInfinity = Num a"
| "Math_max a NaN = NaN"

text \<open>The \<open>while\<close> loop of \<open>next\<close>, with the test \<open>active < limit && idx < items.length\<close>; the
  result lists the state after each iteration.\<close>

function dispatch :: "File list \<Rightarrow> number \<Rightarrow> pool \<Rightarrow> pool list" where
  "dispatch items limit s =
     (if js_less (active s) limit \<and> idx s < length items then
        (let s' = s\<lparr>idx := idx s + 1, active := active s + 1,
                     running := running s @ [items ! idx s]\<rparr>
         in s' # dispatch items limit s')
      else [])"
  by pat_completeness auto
termination
  by (relation "measure (\<lambda>(items, limit, s). length items - idx s)") auto

text \<open>\<open>next\<close>: resolve when all is done, dispatch otherwise. The states it passes through.\<close>

definition next_tick :: "File list \<Rightarrow> number \<Rightarrow> pool \<Rightarrow> pool list" where
  "next_tick items limit s =
     (if length items \<le> idx s \<and> active s = 0 then
        [s\<lparr>resolved := (case resolved s of None \<Rightarrow> Some (results s) | Some r \<Rightarrow> Some r)\<rparr>]
      else dispatch items limit s)"

text \<open>
  The callbacks. \<open>Settle k r\<close>: the promise of the \<open>k\<close>-th running worker settles, the request
  having ended as \<open>r\<close>; the \<open>then\<close> callback pushes the outcome, the \<open>catch\<close> callback pushes an
  \<open>error\<close> outcome with \<open>err?.message || "Error"\<close>. \<open>Finally k\<close>: the \<open>finally\<close> callback of the
  \<open>k\<close>-th settled worker decrements \<open>active\<close> and calls \<open>next\<close>.
\<close>

datatype 'r event = Settle nat 'r | Finally nat

definition settle :: "(File \<Rightarrow> 'r \<Rightarrow> string + Outcome) \<Rightarrow> nat \<Rightarrow> 'r \<Rightarrow> pool \<Rightarrow> pool" where
  "settle worker k r s =
     (let current = running s ! k;
          out = (case worker current r of
                   Inr res \<Rightarrow> res
                 | Inl msg \<Rightarrow> \<lparr>o_filename = file_name current, o_status = ''error'',
                                o_error = Some (or_default (Some msg) ''Error'')\<rparr>)
      in s\<lparr>running := take k (running s) @ drop (Suc k) (running s),
            settled := settled s @ [current],
            results := results s @ [out]\<rparr>)"

text \<open>One callback: the states it passes through, \<open>None\<close> when no such callback is due.\<close>

definition step ::
  "File list \<Rightarrow> (File \<Rightarrow> 'r \<Rightarrow> string + Outcome) \<Rightarrow> number \<Rightarrow> 'r event \<Rightarrow> pool \<Rightarrow> pool list option" where
  "step items worker limit ev s =
     (case ev of
        Settle k r \<Rightarrow> if k < length (running s) then Some [settle worker k r s] else None
      | Finally k \<Rightarrow>
          if k < length (settled s) then
            (let s1 = s\<lparr>settled := take k (settled s) @ drop (Suc k) (settled s),
                         active := active s - 1\<rparr>
             in Some (s1 # next_tick items limit s1))
          else None)"

fun exec ::
  "File list \<Rightarrow> (File \<Rightarrow> 'r \<Rightarrow> string + Outcome) \<Rightarrow> number \<Rightarrow> pool \<Rightarrow> 'r event list \<Rightarrow> pool list option" where
  "exec items worker limit s [] = Some []"
| "exec items worker limit s (ev # evs) =
     (case step items worker limit ev s of
        None \<Rightarrow> None
      | Some tr \<Rightarrow>
          (case exec items worker limit (last tr) evs of
             None \<Rightarrow> None
           | Some tr' \<Rightarrow> Some (tr @ tr')))"

text \<open>
  \<open>runWithConcurrency\<close> under a schedule of callbacks: all the states passed through, from
  the initial one; the promise it returns is resolved with \<open>resolved\<close> of the last state.
\<close>

definition runWithConcurrency ::
  "File list \<Rightarrow> (File \<Rightarrow> 'r \<Rightarrow> string + Outcome) \<Rightarrow> number \<Rightarrow> 'r event list \<Rightarrow> pool list option" where
  "runWithConcurrency items worker limit evs =
     (let tr0 = init # next_tick items limit init
      in map_option (\<lambda>tr. tr0 @ tr) (exec items worker limit (last tr0) evs))"

text \<open>\<open>startUpload\<close>: nothing runs for an empty selection; the limit is
  \<open>Math.max(1, concurrency)\<close>.\<close>

definition startUpload :: "File list \<Rightarrow> number \<Rightarrow> fetched event list \<Rightarrow> pool list option" where
  "startUpload fs concurrency evs =
     (if fs = [] then Some []
      else runWithConcurrency fs uploadOne (Math_max 1 concurrency) evs)"

text \<open>The terminal statuses, and the answers whose first item has a terminal status or
  none: the backends answer \<open>uploaded\<close> or \<open>overwritten\<close>.\<close>

definition terminal :: "string \<Rightarrow> bool" where
  "terminal st = (st = ''uploaded'' \<or> st = ''overwritten'' \<or> st = ''skipped'' \<or> st = ''error'')"

definition conforming :: "fetched \<Rightarrow> bool" where
  "conforming res =
     (case res of
        Ok (x # _) \<Rightarrow> (case i_status x of None \<Rightarrow> True | Some st \<Rightarrow> st = [] \<or> terminal st)
      | _ \<Rightarrow> True)"

text \<open>
  The answer of \<open>POST /upload\<close> of the Express backends to a request with one file:
  \<^verbatim>\<open>results.push({ filename, url, status: exists ? "overwritten" : "uploaded" })\<close>, or status
  500 with \<open>{ error: "Upload failed" }\<close> when the handler throws (\<open>None\<close>).
\<close>

definition express_answer :: "bool option \<Rightarrow> fetched" where
  "express_answer exists =
     (case exists of
        None \<Rightarrow> NotOk (Some ''Upload failed'')
      | Some ex \<Rightarrow> Ok [\<lparr>i_status = Some (if ex then ''overwritten'' else ''uploaded''),
                         i_error = None\<rparr>])"

definition conforming_event :: "fetched event \<Rightarrow> bool" where
  "conforming_event ev = (case ev of Settle k r \<Rightarrow> conforming r | Finally k \<Rightarrow> True)"

text \<open>The invariant of every state, the properties of the states between two callbacks,
  and the number of callbacks still due.\<close>

definition pool_inv :: "File list \<Rightarrow> number \<Rightarrow> pool \<Rightarrow> bool" where
  "pool_inv items limit s =
     (active s = int (length (running s) + length (settled s)) \<and>
      js_less_eq (active s) limit \<and>
      idx s \<le> length items \<and>
      length (results s) + length (running s) = idx s \<and>
      (case resolved s of
         None \<Rightarrow> True
       | Some rs \<Rightarrow> rs = results s \<and> idx s = length items \<and> active s = 0))"

definition stable :: "File list \<Rightarrow> number \<Rightarrow> pool \<Rightarrow> bool" where
  "stable items limit s =
     ((idx s < length items \<longrightarrow> \<not> js_less (active s) limit) \<and>
      (idx s = length items \<and> active s = 0 \<longrightarrow> resolved s \<noteq> None))"

definition due :: "File list \<Rightarrow> pool \<Rightarrow> nat" where
  "due items s = 2 * (length items - idx s) + 2 * length (running s) + length (settled s)"

text \<open>What holds of the outcomes when the worker is \<open>uploadOne\<close>: the results and the running
  workers together name the dispatched files, and every result has a terminal status.\<close>

definition outcomes_inv :: "File list \<Rightarrow> pool \<Rightarrow> bool" where
  "outcomes_inv items s =
     (mset (map o_filename (results s)) + mset (map file_name (running s)) =
        mset (map file_name (take (idx s) items)) \<and>
      list_all (\<lambda>res. terminal (o_status res)) (results s))"

section \<open>Example values\<close>

text \<open>Concrete surroundings, files and states, used to instantiate the theorems below.\<close>

definition ex_env :: "string \<Rightarrow> env" where
  "ex_env t = \<lparr>now = t, uuid = ''id-'' @ t, writeFile_throws = None, readDb_throws = None,
               writeDb_throws = None\<rparr>"

definition ex_file :: "string \<Rightarrow> nat list \<Rightarrow> File" where
  "ex_file ty bs = \<lparr>file_name = ''cat.png'', file_type = ty, file_bytes = bs\<rparr>"

definition ex_named :: "string \<Rightarrow> File" where
  "ex_named n = \<lparr>file_name = n, file_type = ''image/png'', file_bytes = [1, 2, 3]\<rparr>"

definition ex_world :: world where
  "ex_world = \<lparr>files = Map.empty, db = \<lparr>images = Map.empty, writeQueue = None\<rparr>\<rparr>"

definition ex_meta :: "string \<Rightarrow> string \<Rightarrow> nat \<Rightarrow> string \<Rightarrow> ImageMeta" where
  "ex_meta tc tu sz mi =
     \<lparr>id' = ''id-'' @ tc, filename = ''cat.png'', url = ''/api/images/file/cat.png'',
      size' = sz, mime = mi, createdAt = tc, updatedAt = tu\<rparr>"

definition ex_store0 :: store where
  "ex_store0 = \<lparr>images = Map.empty, writeQueue = None\<rparr>"

definition ex_store1 :: store where
  "ex_store1 = \<lparr>images = [''cat.png'' \<mapsto> ex_meta ''t1'' ''t1'' 3 ''image/png''], writeQueue = None\<rparr>"

definition ex_world1 :: world where
  "ex_world1 = \<lparr>files = [''cat.png'' \<mapsto> [9]], db = ex_store1\<rparr>"

definition ex_row :: "string \<Rightarrow> DbRow" where
  "ex_row n = \<lparr>d_filename = n, d_url = ''http://h/files/'' @ n, d_size = 3, d_type = ''image/png'',
                d_createdAt = ''t1'', d_updatedAt = ''t1''\<rparr>"

definition ex_xworld :: xworld where
  "ex_xworld = \<lparr>x_files = {''/tmp/uploads/cat.png''}, x_images = [ex_row ''cat.png'', ex_row ''dog.png'']\<rparr>"

definition ex_comma :: ImageMeta where
  "ex_comma = \<lparr>id' = ''id-t1'', filename = ''a.png'', url = ''/api/images/file/a.png'', size' = 12,
                mime = ''text/plain; note='' @ [dq] @ ''a,b'' @ [dq], createdAt = ''t1'',
                updatedAt = ''t2''\<rparr>"

definition ex_table :: TableImage where
  "ex_table = \<lparr>t_filename = ''a.png'', t_url = ''/files/a.png'', t_size = 12,
                t_mime = Some (''text/plain; note='' @ [dq] @ ''a,b'' @ [dq]), t_type = None, t_createdAt = ''t1'',
                t_updatedAt = ''t2''\<rparr>"


definition ex_files :: "File list" where
  "ex_files = [\<lparr>file_name = ''a.png'', file_type = ''image/png'', file_bytes = [1]\<rparr>,
               \<lparr>file_name = ''b.png'', file_type = ''image/png'', file_bytes = [2]\<rparr>,
               \<lparr>file_name = ''c.png'', file_type = ''image/png'', file_bytes = [3]\<rparr>]"

definition ex_schedule :: "fetched event list" where
  "ex_schedule =
     [Settle 1 (Ok [\<lparr>i_status = Some ''overwritten'', i_error = None\<rparr>]),
      Settle 0 (Rejects ''Failed to fetch''),
      Finally 0,
      Finally 0,
      Settle 0 (NotOk (Some ''Upload failed'')),
      Finally 0]"

section \<open>Properties of sanitizeFilename\<close>

lemma split_on_nonempty: "split_on c s \<noteq> []"
  by (induction s) (auto split: list.splits)

lemma split_on_absent: "c \<notin> set s \<Longrightarrow> split_on c s = [s]"
  by (induction s) auto

lemma last_split_on_subset: "set (last (split_on c s)) \<subseteq> set s"
proof (induction s)
  case Nil
  then show ?case by simp
next
  case (Cons x xs)
  show ?case
  proof (cases "split_on c xs")
    case Nil
    then show ?thesis using split_on_nonempty by blast
  next
    case (Cons h t)
    with Cons.IH show ?thesis by (cases t) auto
  qed
qed

lemma last_split_on_free: "c \<notin> set (last (split_on c s))"
proof (induction s)
  case Nil
  then show ?case by simp
next
  case (Cons x xs)
  show ?case
  proof (cases "split_on c xs")
    case Nil
    then show ?thesis using split_on_nonempty by blast
  next
    case (Cons h t)
    with Cons.IH show ?thesis by (cases t) auto
  qed
qed

lemma safe_char_facts:
  "\<not> safe_char (CHR ''/'')" "\<not> safe_char (CHR 0x5C)" "safe_char (CHR ''_'')"
  "\<not> safe_char (CHR 0x09)" "\<not> safe_char (CHR 0x0A)" "\<not> safe_char (CHR 0x0B)"
  "\<not> safe_char (CHR 0x0C)" "\<not> safe_char (CHR 0x0D)" "\<not> safe_char (CHR 0x20)"
  "\<not> safe_char (CHR 0xA0)"
  by (simp_all add: safe_char_def)

lemma safe_not_space: "safe_char c \<Longrightarrow> \<not> is_space c"
  using safe_char_facts by (auto simp: is_space_def)

lemma trim_safe: "\<forall>c \<in> set s. safe_char c \<Longrightarrow> trim s = s"
proof -
  assume a: "\<forall>c \<in> set s. safe_char c"
  have 1: "dropWhile is_space s = s"
    using a by (cases s) (auto simp: safe_not_space)
  have 2: "dropWhile is_space (rev s) = rev s"
    using a by (cases "rev s") (auto simp: safe_not_space dest!: arg_cong[where f=set])
  show ?thesis by (simp add: trim_def 1 2)
qed

lemma cleaned_safe: "\<forall>c \<in> set (map (\<lambda>c. if safe_char c then c else CHR ''_'') s). safe_char c"
  by (auto simp: safe_char_facts)

lemma dropWhile_safe: "\<forall>c \<in> set s. safe_char c \<Longrightarrow> \<forall>c \<in> set (dropWhile P s). safe_char c"
  by (meson in_mono set_dropWhileD)

lemma clean_base_safe: "\<forall>c \<in> set (clean_base name). safe_char c"
  unfolding clean_base_def using cleaned_safe dropWhile_safe by blast

lemma clean_base_hd: "clean_base name \<noteq> [] \<Longrightarrow> hd (clean_base name) \<noteq> CHR ''_''"
  unfolding clean_base_def by (rule hd_dropWhile)

lemma sanitizeFilename_unfold:
  "sanitizeFilename name = (if clean_base name = [] then ''file'' else clean_base name)"
proof -
  have t: "trim (clean_base name) = clean_base name"
    by (rule trim_safe[OF clean_base_safe])
  show ?thesis
    by (simp only: sanitizeFilename_def Let_def clean_base_def[symmetric] t)
qed

text \<open>What the function guarantees of every result: only characters of the safe class, so
  no path separator; not empty; no leading underscore, so not underscores only.\<close>

lemma file_safe: "\<forall>c \<in> set ''file''. safe_char c"
  by (simp add: safe_char_def)

lemma sanitizeFilename_safe: "\<forall>c \<in> set (sanitizeFilename name). safe_char c"
proof (cases "clean_base name = []")
  case True
  then have "sanitizeFilename name = ''file''" by (simp add: sanitizeFilename_unfold)
  with file_safe show ?thesis by metis
next
  case False
  then have "sanitizeFilename name = clean_base name"
    by (simp add: sanitizeFilename_unfold)
  with clean_base_safe show ?thesis by metis
qed

lemma sanitizeFilename_nonempty: "sanitizeFilename name \<noteq> []"
  by (simp add: sanitizeFilename_unfold)

lemma sanitizeFilename_no_separator:
  "CHR ''/'' \<notin> set (sanitizeFilename name) \<and> CHR 0x5C \<notin> set (sanitizeFilename name)"
  using sanitizeFilename_safe[of name] safe_char_facts by blast

lemma sanitizeFilename_hd: "hd (sanitizeFilename name) \<noteq> CHR ''_''"
proof (cases "clean_base name = []")
  case True
  then have "sanitizeFilename name = ''file''" by (simp add: sanitizeFilename_unfold)
  then show ?thesis by simp
next
  case False
  then have "sanitizeFilename name = clean_base name"
    by (simp add: sanitizeFilename_unfold)
  with clean_base_hd[OF False] show ?thesis by simp
qed

lemma sanitizeFilename_not_underscores:
  "\<not> (\<forall>c \<in> set (sanitizeFilename name). c = CHR ''_'')"
proof
  assume a: "\<forall>c \<in> set (sanitizeFilename name). c = CHR ''_''"
  have "hd (sanitizeFilename name) \<in> set (sanitizeFilename name)"
    using sanitizeFilename_nonempty by simp
  with a have "hd (sanitizeFilename name) = CHR ''_''" by blast
  then show False using sanitizeFilename_hd by blast
qed

lemma sanitizeFilename_fixpoint:
  assumes safe: "\<forall>c \<in> set s. safe_char c" and ne: "s \<noteq> []" and h: "hd s \<noteq> CHR ''_''"
  shows "sanitizeFilename s = s"
proof -
  have nosep: "CHR ''/'' \<notin> set s" "CHR 0x5C \<notin> set s"
    using safe safe_char_facts by blast+
  have base: "pop (split_on (CHR 0x5C) (pop (split_on (CHR ''/'') s))) = s"
    using nosep by (simp add: split_on_absent pop_def)
  have cl: "map (\<lambda>c. if safe_char c then c else CHR ''_'') s = s"
    using safe by (simp add: map_idI)
  have dw: "dropWhile (\<lambda>c. c = CHR ''_'') s = s"
    using ne h by (cases s) auto
  have "clean_base s = s"
    by (simp only: clean_base_def base cl dw)
  with ne show ?thesis
    by (simp add: sanitizeFilename_unfold)
qed

text \<open>
  Claim C6. The sanitized name is meant to be non-empty, free of path separators, made of
  safe characters only, not hidden (no leading dot) and not underscores only. The source
  comments the last replacement with "prevent hidden files and empty names", but the
  replacement removes leading underscores only and the dot is a safe character: a name
  with a leading dot is returned as it is.
\<close>

theorem sanitizeFilename_keeps_leading_dot:
  "sanitizeFilename ''.env'' = ''.env'' \<and> hd (sanitizeFilename ''.env'') = CHR ''.''"
  by (simp add: sanitizeFilename_def pop_def safe_char_def trim_def is_space_def)

lemma sanitize_twice: "sanitizeFilename (sanitizeFilename s) = sanitizeFilename s"
  by (rule sanitizeFilename_fixpoint
      [OF sanitizeFilename_safe sanitizeFilename_nonempty sanitizeFilename_hd])

text \<open>
  Claim C10. sanitizeFilename is idempotent: sanitizing a sanitized name returns it
  unchanged. The routes sanitize a name again when they build the storage path
  (\<open>getSafeFilePath\<close>, and \<open>path.join(uploadDir, sanitizeFilename(name))\<close> in the delete
  route) and the public URL, so the path and the URL built from a sanitized name are
  those of that name; in particular the path built from the filename of a record written
  by the upload route is the path the upload wrote.
\<close>

theorem sanitizeFilename_idempotent:
  "sanitizeFilename (sanitizeFilename s) = sanitizeFilename s \<and>
   getSafeFilePath (sanitizeFilename s) = sanitizeFilename s \<and>
   toPublicUrl (sanitizeFilename s) = ''/api/images/file/'' @ sanitizeFilename s \<and>
   getSafeFilePath (stored_name f) = stored_name f"
  by (simp add: getSafeFilePath_def toPublicUrl_def stored_name_def sanitize_twice)

section \<open>Properties of the store and of the upload route\<close>

lemma assign_same:
  "key \<noteq> ''__proto__'' \<or> imgs key \<noteq> None \<Longrightarrow> assign imgs key v key = Some v"
  by (auto simp: assign_def)

lemma assign_other: "k \<noteq> key \<Longrightarrow> assign imgs key v k = imgs k"
  by (simp add: assign_def)

text \<open>No sanitized name is \<open>__proto__\<close>: the leading underscores are stripped.\<close>

lemma sanitizeFilename_not_proto: "sanitizeFilename name \<noteq> ''__proto__''"
proof
  assume "sanitizeFilename name = ''__proto__''"
  then have "hd (sanitizeFilename name) = CHR ''_''" by simp
  with sanitizeFilename_hd[of name] show False by simp
qed

lemma stored_name_not_proto: "stored_name f \<noteq> ''__proto__''"
  by (simp add: stored_name_def sanitizeFilename_not_proto)

lemma upsert_ok:
  "writeQueue st = None \<Longrightarrow> readDb_throws e = None \<Longrightarrow> writeDb_throws e = None \<Longrightarrow>
   upsert e fname u sz mi st =
     (Inr (), st\<lparr>images := assign (images st) fname
        \<lparr>id' = (case images st fname of Some x \<Rightarrow> id' x | None \<Rightarrow> uuid e),
         filename = fname, url = u, size' = sz, mime = mi,
         createdAt = (case images st fname of Some x \<Rightarrow> createdAt x | None \<Rightarrow> now e),
         updatedAt = now e\<rparr>\<rparr>)"
  by (simp add: upsert_def Let_def)

text \<open>Once a queued operation has thrown, every later upsert fails with the same error and
  changes nothing: its callback is chained on the rejected promise.\<close>

lemma upsert_after_failure:
  "writeQueue st = Some err \<Longrightarrow> upsert e fname u sz mi st = (Inl err, st)"
  by (simp add: upsert_def)

lemma upsert_Inr:
  "upsert e fname u sz mi st = (Inr x, st') \<Longrightarrow>
   writeQueue st = None \<and> readDb_throws e = None \<and> writeDb_throws e = None"
  by (auto simp: upsert_def Let_def split: option.splits prod.splits)

lemma stored_name_idem: "sanitizeFilename (stored_name f) = stored_name f"
  by (simp add: stored_name_def sanitize_twice)

lemma upload_file_unfold:
  "upload_file overwrite e f w =
     (if files w (stored_name f) \<noteq> None \<and> \<not> overwrite then
        (\<lparr>r_filename = stored_name f, r_url = None, r_status = ''skipped'',
          r_error = Some ''File exists. Set overwrite=true to replace.''\<rparr>, w)
      else
        (case writeFile_throws e of
           Some (err, left) \<Rightarrow>
             (caught (stored_name f) err, w\<lparr>files := (files w)(stored_name f := left)\<rparr>)
         | None \<Rightarrow>
            (case upsert e (stored_name f) (toPublicUrl (stored_name f)) (length (file_bytes f))
                    (if file_type f = [] then ''application/octet-stream'' else file_type f)
                    (db w) of
               (Inl err, st) \<Rightarrow>
                 (caught (stored_name f) err,
                  w\<lparr>files := (files w)(stored_name f \<mapsto> file_bytes f), db := st\<rparr>)
             | (Inr _, st) \<Rightarrow>
                 (\<lparr>r_filename = stored_name f, r_url = Some (toPublicUrl (stored_name f)),
                   r_status = (if files w (stored_name f) \<noteq> None then ''overwritten''
                               else ''uploaded''),
                   r_error = None\<rparr>,
                  w\<lparr>files := (files w)(stored_name f \<mapsto> file_bytes f), db := st\<rparr>))))"
  unfolding upload_file_def Let_def stored_name_def[symmetric] getSafeFilePath_def
    stored_name_idem
  by (simp split: option.splits prod.splits sum.splits)

lemma upload_file_ok:
  assumes "no_faults e" "writeQueue (db w) = None"
  shows "upload_file True e f w =
     (\<lparr>r_filename = stored_name f, r_url = Some (toPublicUrl (stored_name f)),
       r_status = (if files w (stored_name f) \<noteq> None then ''overwritten'' else ''uploaded''),
       r_error = None\<rparr>,
      \<lparr>files = (files w)(stored_name f \<mapsto> file_bytes f),
       db = (db w)\<lparr>images := (images (db w))(stored_name f \<mapsto>
        \<lparr>id' = (case images (db w) (stored_name f) of Some x \<Rightarrow> id' x | None \<Rightarrow> uuid e),
         filename = stored_name f, url = toPublicUrl (stored_name f),
         size' = length (file_bytes f),
         mime = (if file_type f = [] then ''application/octet-stream'' else file_type f),
         createdAt = (case images (db w) (stored_name f) of Some x \<Rightarrow> createdAt x | None \<Rightarrow> now e),
         updatedAt = now e\<rparr>)\<rparr>\<rparr>)"
proof -
  have q: "writeFile_throws e = None" "readDb_throws e = None" "writeDb_throws e = None"
    using assms(1) by (simp_all add: no_faults_def)
  show ?thesis
    unfolding upload_file_unfold
    by (simp add: q upsert_ok[OF assms(2) q(2) q(3)] assign_def stored_name_not_proto)
qed

lemma stored_name_ex: "stored_name (ex_file ty bs) = ''cat.png''"
  by (simp add: stored_name_def ex_file_def sanitizeFilename_def pop_def safe_char_def trim_def
      is_space_def)

lemma ex_file_sel: "file_type (ex_file ty bs) = ty" "file_bytes (ex_file ty bs) = bs"
  by (simp_all add: ex_file_def)

lemma ex_env_sel: "now (ex_env t) = t" "uuid (ex_env t) = ''id-'' @ t"
  by (simp_all add: ex_env_def)

lemma sanitize_cat: "sanitizeFilename ''cat.png'' = ''cat.png''"
  by (simp add: sanitizeFilename_def pop_def safe_char_def trim_def is_space_def)




text \<open>A storage write that throws changes at most what is stored under the name of its
  file; a file with another name is processed in the same way in two states that differ
  at most there.\<close>

lemma same_but_refl: "same_but k w w"
  by (simp add: same_but_def)




text \<open>
  Claim C1, as stated, speaks of every call of upsert. The store is a plain object keyed
  by filename, and for the key \<open>__proto__\<close> without an own property the assignment
  \<open>state.images[meta.filename] = next\<close> runs the setter inherited from \<open>Object.prototype\<close>:
  on the empty store the upsert of \<open>__proto__\<close> succeeds and creates no record.
\<close>

theorem upsert_proto_not_stored:
  "images ex_store0 ''__proto__'' = None \<and>
   fst (upsert (ex_env ''t1'') ''__proto__'' ''/api/images/file/__proto__'' 3 ''image/png''
          ex_store0) = Inr () \<and>
   images (snd (upsert (ex_env ''t1'') ''__proto__'' ''/api/images/file/__proto__'' 3 ''image/png''
                  ex_store0)) ''__proto__'' = None"
  by (simp add: upsert_def ex_env_def ex_store0_def assign_def Let_def)

text \<open>
  Claim C1, amended. An upsert that succeeds on a filename with a record keeps the record's
  \<open>createdAt\<close> (and \<open>id\<close>), replaces \<open>size\<close>, \<open>mime\<close> and \<open>url\<close> by the new values and sets
  \<open>updatedAt\<close> to the time of the call; on a filename without a record, other than
  \<open>__proto__\<close>, it creates one with \<open>createdAt = updatedAt\<close>. With a fulfilled queue and no
  I/O fault the upsert succeeds. No sanitized name is \<open>__proto__\<close>, so this covers every
  filename that the upload route passes to the store: uploading a new filename twice with
  \<open>overwrite = true\<close> leaves a record whose \<open>createdAt\<close> is the time of the first upload,
  whose \<open>updatedAt\<close> is the time of the second and whose \<open>size\<close> and \<open>mime\<close> are those of the
  second payload.
\<close>

theorem upsert_createdAt:
  "(upsert e fname u sz mi st = (Inr (), st') \<and> images st fname = Some old \<longrightarrow>
      images st' fname = Some \<lparr>id' = id' old, filename = fname, url = u, size' = sz, mime = mi,
                                createdAt = createdAt old, updatedAt = now e\<rparr>) \<and>
   (upsert e fname u sz mi st = (Inr (), st') \<and> images st fname = None \<and>
    fname \<noteq> ''__proto__'' \<longrightarrow>
      images st' fname = Some \<lparr>id' = uuid e, filename = fname, url = u, size' = sz, mime = mi,
                                createdAt = now e, updatedAt = now e\<rparr>) \<and>
   (writeQueue st = None \<and> readDb_throws e = None \<and> writeDb_throws e = None \<longrightarrow>
      fst (upsert e fname u sz mi st) = Inr ()) \<and>
   sanitizeFilename name \<noteq> ''__proto__'' \<and>
   (no_faults e1 \<and> no_faults e2 \<and> writeQueue (db w) = None \<and> stored_name f2 = stored_name f1 \<and>
    images (db w) (stored_name f1) = None \<longrightarrow>
      (let w1 = snd (upload_file True e1 f1 w); w2 = snd (upload_file True e2 f2 w1)
       in images (db w2) (stored_name f1) =
            Some \<lparr>id' = uuid e1, filename = stored_name f1, url = toPublicUrl (stored_name f1),
                  size' = length (file_bytes f2),
                  mime = (if file_type f2 = [] then ''application/octet-stream'' else file_type f2),
                  createdAt = now e1, updatedAt = now e2\<rparr>))"
proof (intro conjI impI)
  assume a: "upsert e fname u sz mi st = (Inr (), st') \<and> images st fname = Some old"
  then show "images st' fname = Some \<lparr>id' = id' old, filename = fname, url = u, size' = sz, mime = mi,
                                createdAt = createdAt old, updatedAt = now e\<rparr>"
    using upsert_Inr[of e fname u sz mi st "()" st'] upsert_ok[of st e fname u sz mi]
    by (auto simp: assign_same)
next
  assume a: "upsert e fname u sz mi st = (Inr (), st') \<and> images st fname = None \<and>
    fname \<noteq> ''__proto__''"
  then show "images st' fname = Some \<lparr>id' = uuid e, filename = fname, url = u, size' = sz, mime = mi,
                                createdAt = now e, updatedAt = now e\<rparr>"
    using upsert_Inr[of e fname u sz mi st "()" st'] upsert_ok[of st e fname u sz mi]
    by (auto simp: assign_same)
next
  assume "writeQueue st = None \<and> readDb_throws e = None \<and> writeDb_throws e = None"
  then show "fst (upsert e fname u sz mi st) = Inr ()"
    by (simp add: upsert_ok)
next
  show "sanitizeFilename name \<noteq> ''__proto__''"
    by (rule sanitizeFilename_not_proto)
next
  assume a: "no_faults e1 \<and> no_faults e2 \<and> writeQueue (db w) = None \<and> stored_name f2 = stored_name f1 \<and>
    images (db w) (stored_name f1) = None"
  from a have nf1: "no_faults e1" and nf2: "no_faults e2" and q0: "writeQueue (db w) = None"
    and sn: "stored_name f2 = stored_name f1" and i0: "images (db w) (stored_name f1) = None"
    by blast+
  define w1 where "w1 = snd (upload_file True e1 f1 w)"
  have d1: "db w1 = (db w)\<lparr>images := (images (db w))(stored_name f1 \<mapsto>
        \<lparr>id' = uuid e1, filename = stored_name f1, url = toPublicUrl (stored_name f1),
                  size' = length (file_bytes f1),
                  mime = (if file_type f1 = [] then ''application/octet-stream'' else file_type f1),
                  createdAt = now e1, updatedAt = now e1\<rparr>)\<rparr>"
    unfolding w1_def upload_file_ok[OF nf1 q0] by (simp add: i0)
  have q: "writeQueue (db w1) = None"
    unfolding d1 using q0 by simp
  have i1: "images (db w1) (stored_name f2) = Some \<lparr>id' = uuid e1, filename = stored_name f1, url = toPublicUrl (stored_name f1),
                  size' = length (file_bytes f1),
                  mime = (if file_type f1 = [] then ''application/octet-stream'' else file_type f1),
                  createdAt = now e1, updatedAt = now e1\<rparr>"
    unfolding d1 sn by simp
  have "images (db (snd (upload_file True e2 f2 w1))) (stored_name f2) =
            Some \<lparr>id' = uuid e1, filename = stored_name f2, url = toPublicUrl (stored_name f2),
                  size' = length (file_bytes f2),
                  mime = (if file_type f2 = [] then ''application/octet-stream'' else file_type f2),
                  createdAt = now e1, updatedAt = now e2\<rparr>"
    unfolding upload_file_ok[OF nf2 q] i1 by simp
  then show "(let w1 = snd (upload_file True e1 f1 w); w2 = snd (upload_file True e2 f2 w1)
       in images (db w2) (stored_name f1) =
            Some \<lparr>id' = uuid e1, filename = stored_name f1, url = toPublicUrl (stored_name f1),
                  size' = length (file_bytes f2),
                  mime = (if file_type f2 = [] then ''application/octet-stream'' else file_type f2),
                  createdAt = now e1, updatedAt = now e2\<rparr>)"
    unfolding Let_def w1_def[symmetric] sn .
qed

theorem upsert_createdAt_witness:
  "images ex_store1 ''cat.png'' = Some (ex_meta ''t1'' ''t1'' 3 ''image/png'') \<and>
   fst (upsert (ex_env ''t2'') ''cat.png'' ''/api/images/file/cat.png'' 5 ''image/gif'' ex_store1) = Inr () \<and>
   images (snd (upsert (ex_env ''t2'') ''cat.png'' ''/api/images/file/cat.png'' 5 ''image/gif'' ex_store1))
     ''cat.png'' = Some (ex_meta ''t1'' ''t2'' 5 ''image/gif'') \<and>
   images ex_store0 ''cat.png'' = None \<and> ''cat.png'' \<noteq> ''__proto__'' \<and>
   images (snd (upsert (ex_env ''t1'') ''cat.png'' ''/api/images/file/cat.png'' 3 ''image/png'' ex_store0))
     ''cat.png'' = Some (ex_meta ''t1'' ''t1'' 3 ''image/png'') \<and>
   sanitizeFilename ''__proto__'' = ''proto__'' \<and>
   images (db (snd (upload_file True (ex_env ''t2'') (ex_file ''image/gif'' [1, 2, 3, 4, 5])
                 (snd (upload_file True (ex_env ''t1'') (ex_file ''image/png'' [1, 2, 3]) ex_world)))))
     ''cat.png'' = Some (ex_meta ''t1'' ''t2'' 5 ''image/gif'')"
proof -
  let ?u = "''/api/images/file/cat.png''"
  have ok1: "upsert (ex_env ''t2'') ''cat.png'' ?u 5 ''image/gif'' ex_store1 =
      (Inr (), snd (upsert (ex_env ''t2'') ''cat.png'' ?u 5 ''image/gif'' ex_store1))"
    by (simp add: upsert_def ex_env_def ex_store1_def Let_def)
  have ok0: "upsert (ex_env ''t1'') ''cat.png'' ?u 3 ''image/png'' ex_store0 =
      (Inr (), snd (upsert (ex_env ''t1'') ''cat.png'' ?u 3 ''image/png'' ex_store0))"
    by (simp add: upsert_def ex_env_def ex_store0_def Let_def)
  have old: "images ex_store1 ''cat.png'' = Some (ex_meta ''t1'' ''t1'' 3 ''image/png'')"
    by (simp add: ex_store1_def)
  have fresh: "images ex_store0 ''cat.png'' = None"
    by (simp add: ex_store0_def)
  have np: "''cat.png'' \<noteq> ''__proto__''"
    by simp
  have sp: "sanitizeFilename ''__proto__'' = ''proto__''"
    by (simp add: sanitizeFilename_def pop_def safe_char_def trim_def is_space_def)
  have nf: "no_faults (ex_env ''t1'')" "no_faults (ex_env ''t2'')"
    by (simp_all add: no_faults_def ex_env_def)
  have q: "writeQueue (db ex_world) = None" "images (db ex_world) ''cat.png'' = None"
    by (simp_all add: ex_world_def)
  note t1 = upsert_createdAt[where e = "ex_env ''t2''" and fname = "''cat.png''" and u = ?u
      and sz = 5 and mi = "''image/gif''" and st = ex_store1
      and st' = "snd (upsert (ex_env ''t2'') ''cat.png'' ?u 5 ''image/gif'' ex_store1)"
      and old = "ex_meta ''t1'' ''t1'' 3 ''image/png''"
      and ?e1.0 = "ex_env ''t1''" and ?e2.0 = "ex_env ''t2''" and w = ex_world
      and ?f1.0 = "ex_file ''image/png'' [1, 2, 3]" and ?f2.0 = "ex_file ''image/gif'' [1, 2, 3, 4, 5]"]
  note t0 = upsert_createdAt[where e = "ex_env ''t1''" and fname = "''cat.png''" and u = ?u
      and sz = 3 and mi = "''image/png''" and st = ex_store0
      and st' = "snd (upsert (ex_env ''t1'') ''cat.png'' ?u 3 ''image/png'' ex_store0)"]
  have sn: "stored_name (ex_file ''image/gif'' [1, 2, 3, 4, 5]) = stored_name (ex_file ''image/png'' [1, 2, 3])"
    by (simp only: stored_name_ex)
  have c1: "images (snd (upsert (ex_env ''t2'') ''cat.png'' ?u 5 ''image/gif'' ex_store1)) ''cat.png''
      = Some (ex_meta ''t1'' ''t2'' 5 ''image/gif'')"
    using t1[THEN conjunct1] ok1 old by (simp add: ex_meta_def ex_env_def)
  have c2: "images (snd (upsert (ex_env ''t1'') ''cat.png'' ?u 3 ''image/png'' ex_store0)) ''cat.png''
      = Some (ex_meta ''t1'' ''t1'' 3 ''image/png'')"
    using t0[THEN conjunct2, THEN conjunct1] ok0 fresh np by (simp add: ex_meta_def ex_env_def)
  have c3: "fst (upsert (ex_env ''t2'') ''cat.png'' ?u 5 ''image/gif'' ex_store1) = Inr ()"
    using t1[THEN conjunct2, THEN conjunct2, THEN conjunct1]
    by (simp add: ex_env_def ex_store1_def)
  have c4: "images (db (snd (upload_file True (ex_env ''t2'') (ex_file ''image/gif'' [1, 2, 3, 4, 5])
                 (snd (upload_file True (ex_env ''t1'') (ex_file ''image/png'' [1, 2, 3]) ex_world)))))
     ''cat.png'' = Some (ex_meta ''t1'' ''t2'' 5 ''image/gif'')"
    using t1[THEN conjunct2, THEN conjunct2, THEN conjunct2, THEN conjunct2] nf q
    by (simp add: stored_name_ex Let_def toPublicUrl_def sanitize_cat ex_meta_def
        ex_env_sel ex_file_sel)
  show ?thesis
    using c1 c2 c3 c4 old fresh np sp by blast
qed

text \<open>
  Claim C4. When the sanitized name of an uploaded file exists in storage and \<open>overwrite\<close>
  is false, the result for the file is \<open>skipped\<close> with the reason
  "File exists. Set overwrite=true to replace.", and the whole state (stored bytes, records
  and write queue) is returned unchanged: no write and no upsert happen.
\<close>

theorem skip_on_conflict:
  "files w (stored_name f) \<noteq> None \<Longrightarrow>
   upload_file False e f w =
     (\<lparr>r_filename = stored_name f, r_url = None, r_status = ''skipped'',
       r_error = Some ''File exists. Set overwrite=true to replace.''\<rparr>, w)"
  by (simp add: upload_file_unfold)

theorem skip_on_conflict_witness:
  "files ex_world1 (stored_name (ex_file ''image/gif'' [1, 2])) \<noteq> None \<and>
   upload_file False (ex_env ''t2'') (ex_file ''image/gif'' [1, 2]) ex_world1 =
     (\<lparr>r_filename = ''cat.png'', r_url = None, r_status = ''skipped'',
       r_error = Some ''File exists. Set overwrite=true to replace.''\<rparr>, ex_world1)"
proof -
  have h: "files ex_world1 (stored_name (ex_file ''image/gif'' [1, 2])) \<noteq> None"
    by (simp add: stored_name_ex ex_world1_def)
  show ?thesis
    using h skip_on_conflict[OF h, of "ex_env ''t2''"] by (simp add: stored_name_ex)
qed



text \<open>The restriction to files with another name is needed: a later file with the name of
  the failing one finds what the failed write has left, here an empty file, and is skipped
  as existing, where without the failing file it is uploaded.\<close>

lemma same_name_after_fault:
  "map r_status (fst (upload_loop False
     [((ex_env ''t1'')\<lparr>writeFile_throws := Some (''EACCES'', Some [])\<rparr>, ex_named ''cat.png''),
      (ex_env ''t2'', ex_named ''cat.png'')] ex_world)) = [''skipped'', ''skipped'']"
  "map r_error (fst (upload_loop False
     [((ex_env ''t1'')\<lparr>writeFile_throws := Some (''EACCES'', Some [])\<rparr>, ex_named ''cat.png''),
      (ex_env ''t2'', ex_named ''cat.png'')] ex_world)) =
     [Some ''EACCES'', Some ''File exists. Set overwrite=true to replace.'']"
  "map r_status (fst (upload_loop False [(ex_env ''t2'', ex_named ''cat.png'')] ex_world)) =
     [''uploaded'']"
  by code_simp+




section \<open>Properties of the bulk delete and of the CSV export\<close>

lemma from_Set_distinct: "distinct (from_Set xs)"
  by (simp add: from_Set_def)

lemma from_Set_set: "set (from_Set xs) = set xs"
  by (simp add: from_Set_def)

lemma delete_each_names:
  "delete_each pf names w = (Inr rs, w') \<Longrightarrow> map e_filename rs = names"
proof (induction names arbitrary: w rs w')
  case Nil
  then show ?case by simp
next
  case (Cons n ns)
  then show ?case
    by (auto simp: Let_def split: if_splits prod.splits sum.splits)
qed

lemma delete_each_step:
  "\<not> db_throws pf n \<Longrightarrow>
   \<exists>w2 d h. delete_each pf (n # ns) w =
     (case delete_each pf ns w2 of
        (Inl e, w3) \<Rightarrow> (Inl e, w3)
      | (Inr rs, w3) \<Rightarrow>
          (Inr (\<lparr>e_filename = n, fileDeleted = d, recordDeleted = h\<rparr> # rs), w3))"
  by (simp add: Let_def) blast

lemma delete_each_no_throw:
  "\<forall>n. \<not> db_throws pf n \<Longrightarrow> \<not> isl (fst (delete_each pf names w))"
proof (induction names arbitrary: w)
  case Nil
  then show ?case by simp
next
  case (Cons n ns)
  from Cons.prems have "\<not> db_throws pf n" by blast
  from delete_each_step[OF this, of ns w] obtain w2 d h where
    st: "delete_each pf (n # ns) w =
     (case delete_each pf ns w2 of
        (Inl e, w3) \<Rightarrow> (Inl e, w3)
      | (Inr rs, w3) \<Rightarrow>
          (Inr (\<lparr>e_filename = n, fileDeleted = d, recordDeleted = h\<rparr> # rs), w3))"
    by blast
  have ih: "\<not> isl (fst (delete_each pf ns w2))"
    by (rule Cons.IH[OF Cons.prems])
  show ?case
    unfolding st using ih
    by (cases "delete_each pf ns w2") (auto split: sum.splits)
qed

lemma delete_each_total:
  assumes "\<forall>n. \<not> db_throws pf n"
  shows "\<exists>rs w'. delete_each pf names w = (Inr rs, w')"
proof (cases "delete_each pf names w")
  case (Pair a w')
  with delete_each_no_throw[OF assms, of names w] have "\<not> isl a" by simp
  then obtain rs where "a = Inr rs" by (cases a) auto
  with Pair show ?thesis by blast
qed

lemma resolve_distinct: "distinct (resolve_filenames pf items)"
  by (simp add: resolve_filenames_def from_Set_distinct)

lemma resolve_set:
  "set (resolve_filenames pf items) = toFilename pf ` set items - {[]}"
  by (auto simp: resolve_filenames_def from_Set_set)

text \<open>The order of \<open>Array.from(new Set(xs))\<close>: the elements are added one by one, a new one
  at the end, one that is already there not at all.\<close>

lemma from_Set_snoc:
  "from_Set (xs @ [x]) = (if x \<in> set xs then from_Set xs else from_Set xs @ [x])"
  by (simp add: from_Set_def)

lemma from_Set_append: "\<exists>zs. from_Set (xs @ ys) = from_Set xs @ zs"
proof (induction ys rule: rev_induct)
  case Nil
  then show ?case by simp
next
  case (snoc y ys)
  then obtain zs where z: "from_Set (xs @ ys) = from_Set xs @ zs" by blast
  have "from_Set (xs @ ys @ [y]) = from_Set ((xs @ ys) @ [y])" by simp
  also have "\<dots> = (if y \<in> set (xs @ ys) then from_Set (xs @ ys) else from_Set (xs @ ys) @ [y])"
    by (rule from_Set_snoc)
  finally show ?case using z by auto
qed

lemma resolve_snoc:
  "resolve_filenames pf (items @ [item]) =
     (if toFilename pf item = [] \<or> toFilename pf item \<in> set (resolve_filenames pf items)
      then resolve_filenames pf items
      else resolve_filenames pf items @ [toFilename pf item])"
  by (auto simp: resolve_filenames_def from_Set_snoc from_Set_set)

lemma resolve_append:
  "\<exists>zs. resolve_filenames pf (items @ later) = resolve_filenames pf items @ zs"
  using from_Set_append[of "filter (\<lambda>s. s \<noteq> []) (map (toFilename pf) items)"
      "filter (\<lambda>s. s \<noteq> []) (map (toFilename pf) later)"]
  by (simp add: resolve_filenames_def)

lemma basename_no_slash: "CHR ''/'' \<notin> set (basename p)"
  by (simp add: basename_def pop_def last_split_on_free)

lemma split_on_sep_tl: "tl (split_on c (xs @ c # ys)) \<noteq> []"
proof (induction xs)
  case Nil
  then show ?case by (simp add: split_on_nonempty)
next
  case (Cons x xs)
  then show ?case
    by (cases "split_on c (xs @ c # ys)") (auto simp: split_on_nonempty)
qed

lemma last_split_on_suffix:
  "c \<notin> set name \<Longrightarrow> last (split_on c (dir @ c # name)) = name"
proof (induction dir)
  case Nil
  then show ?case by (simp add: split_on_absent)
next
  case (Cons x xs)
  show ?case
  proof (cases "split_on c (xs @ c # name)")
    case Nil
    then show ?thesis using split_on_nonempty by blast
  next
    case (Cons h t)
    from split_on_sep_tl[of c xs name] Cons have "t \<noteq> []" by simp
    with Cons Cons.IH[OF Cons.prems] show ?thesis by auto
  qed
qed

lemma basename_last:
  assumes "CHR ''/'' \<notin> set name" and "name \<noteq> []"
  shows "basename (dir @ CHR ''/'' # name @ replicate k (CHR ''/'')) = name"
proof -
  have h: "hd (rev name) \<noteq> CHR ''/''"
    using assms by (metis hd_rev last_in_set)
  have r: "rev name \<noteq> []" using assms(2) by simp
  have "dropWhile (\<lambda>c. c = CHR ''/'') (rev (dir @ CHR ''/'' # name @ replicate k (CHR ''/'')))
      = rev name @ CHR ''/'' # rev dir"
    using h r by (cases "rev name") (simp_all add: dropWhile_append3)
  then show ?thesis
    by (simp add: basename_def pop_def last_split_on_suffix[OF assms(1)])
qed

lemma node_sel:
  "url_pathname node = sample_url_pathname" "decodeURIComponent node = sample_decode"
  "db_throws node n = False"
  by (simp_all add: node_def)

lemma ex_urls:
  "sample_url_pathname ''http://h/files/my%20cat.png'' = Some ''/files/my%20cat.png''"
  "sample_decode (basename ''/files/my%20cat.png'') = Some ''my cat.png''"
  "sample_url_pathname ''http://h/%zz'' = Some ''/%zz''"
  "sample_decode (basename ''/%zz'') = None"
  "sample_url_pathname ''  cat.png '' = None"
  "trim ''  cat.png '' = ''cat.png''"
  by code_simp+

lemma ex_delete:
  "delete_POST node (Some [''http://h/files/cat.png'', ''cat.png'', ''  '', ''dog.png'', '' cat.png''])
     ex_xworld =
   (D200 [\<lparr>e_filename = ''cat.png'', fileDeleted = True, recordDeleted = True\<rparr>,
          \<lparr>e_filename = ''dog.png'', fileDeleted = False, recordDeleted = True\<rparr>] 2,
    \<lparr>x_files = {}, x_images = []\<rparr>)"
  by code_simp

text \<open>
  Claim C7, as stated, makes the filename of every identifier that parses as an absolute
  URL the URL-decoded basename of its path. The \<open>try\<close> block covers the decoding too: when
  \<open>decodeURIComponent\<close> throws, the \<open>catch\<close> returns the trimmed identifier. The URL
  \<open>http://h/%zz\<close> parses, its basename \<open>%zz\<close> has no decoding, and the filename is the whole
  URL.
\<close>

theorem toFilename_undecodable:
  "url_pathname node ''http://h/%zz'' = Some ''/%zz'' \<and>
   decodeURIComponent node (basename ''/%zz'') = None \<and>
   toFilename node ''http://h/%zz'' = ''http://h/%zz''"
  by (simp add: node_def toFilename_def sample_url_pathname_def sample_path_def trim_def
      is_space_def basename_def pop_def hexval_def)

text \<open>
  Claim C7, amended. An identifier that parses as an absolute URL and whose path basename
  decodes resolves to the decoded basename, the basename being the part of the path after
  its last slash, trailing slashes apart (it contains no slash, and the basename of
  \<open>dir/name\<close>, also when followed by slashes, is \<open>name\<close>); an identifier that parses but whose basename
  does not decode, and an identifier that does not parse, resolve to the trimmed
  identifier. The resolved filenames are the non-empty results without duplicates, in the
  order of their first occurrences: the list for no item is empty, and one more item at the
  end adds its filename at the end when it is not empty and not resolved already, and
  changes nothing otherwise, so what a prefix of the items resolves to stays in front. The
  list is computed before any deletion, and the report of a successful request has exactly
  one entry for each resolved filename, in that order.
\<close>

theorem toFilename_resolution:
  "(url_pathname pf item = Some p \<and> decodeURIComponent pf (basename p) = Some f \<longrightarrow>
      toFilename pf item = f) \<and>
   (url_pathname pf item = Some p \<and> decodeURIComponent pf (basename p) = None \<longrightarrow>
      toFilename pf item = trim item) \<and>
   (url_pathname pf item = None \<longrightarrow> toFilename pf item = trim item) \<and>
   distinct (resolve_filenames pf items) \<and>
   set (resolve_filenames pf items) = toFilename pf ` set items - {[]} \<and>
   (delete_POST pf (Some items) w = (D200 rs n, w') \<longrightarrow>
      map e_filename rs = resolve_filenames pf items) \<and>
   CHR ''/'' \<notin> set (basename p) \<and>
   (CHR ''/'' \<notin> set name \<and> name \<noteq> [] \<longrightarrow>
      basename (dir @ CHR ''/'' # name @ replicate k (CHR ''/'')) = name) \<and>
   resolve_filenames pf [] = [] \<and>
   resolve_filenames pf (items @ [item]) =
     (if toFilename pf item = [] \<or> toFilename pf item \<in> set (resolve_filenames pf items)
      then resolve_filenames pf items
      else resolve_filenames pf items @ [toFilename pf item]) \<and>
   (\<exists>zs. resolve_filenames pf (items @ later) = resolve_filenames pf items @ zs)"
proof (intro conjI impI)
  assume a: "delete_POST pf (Some items) w = (D200 rs n, w')"
  then have "delete_each pf (resolve_filenames pf items) w = (Inr rs, w')"
    by (auto simp: delete_POST_def Let_def split: if_splits prod.splits sum.splits)
  then show "map e_filename rs = resolve_filenames pf items"
    by (rule delete_each_names)
next
  show "resolve_filenames pf (items @ [item]) =
     (if toFilename pf item = [] \<or> toFilename pf item \<in> set (resolve_filenames pf items)
      then resolve_filenames pf items
      else resolve_filenames pf items @ [toFilename pf item])"
    by (rule resolve_snoc)
next
  show "\<exists>zs. resolve_filenames pf (items @ later) = resolve_filenames pf items @ zs"
    by (rule resolve_append)
next
  show "resolve_filenames pf [] = []"
    by (simp add: resolve_filenames_def from_Set_def)
next
  show "CHR ''/'' \<notin> set (basename p)"
    by (rule basename_no_slash)
next
  assume "CHR ''/'' \<notin> set name \<and> name \<noteq> []"
  then show "basename (dir @ CHR ''/'' # name @ replicate k (CHR ''/'')) = name"
    by (simp add: basename_last)
qed (simp_all add: toFilename_def resolve_distinct resolve_set)

theorem toFilename_resolution_witness:
  "url_pathname node ''http://h/files/my%20cat.png'' = Some ''/files/my%20cat.png'' \<and>
   decodeURIComponent node (basename ''/files/my%20cat.png'') = Some ''my cat.png'' \<and>
   toFilename node ''http://h/files/my%20cat.png'' = ''my cat.png'' \<and>
   url_pathname node ''http://h/%zz'' = Some ''/%zz'' \<and>
   decodeURIComponent node (basename ''/%zz'') = None \<and>
   toFilename node ''http://h/%zz'' = trim ''http://h/%zz'' \<and>
   url_pathname node ''  cat.png '' = None \<and>
   toFilename node ''  cat.png '' = ''cat.png'' \<and>
   map e_filename [\<lparr>e_filename = ''cat.png'', fileDeleted = True, recordDeleted = True\<rparr>,
                   \<lparr>e_filename = ''dog.png'', fileDeleted = False, recordDeleted = True\<rparr>] =
     resolve_filenames node [''http://h/files/cat.png'', ''cat.png'', ''  '', ''dog.png'', '' cat.png''] \<and>
   resolve_filenames node [''dog.png'', ''http://h/files/cat.png''] = [''dog.png'', ''cat.png''] \<and>
   toFilename node ''dog.png'' \<in> set (resolve_filenames node [''dog.png'', ''http://h/files/cat.png'']) \<and>
   resolve_filenames node ([''dog.png'', ''http://h/files/cat.png''] @ [''dog.png'']) =
     [''dog.png'', ''cat.png''] \<and>
   basename ''/files/my%20cat.png/'' = ''my%20cat.png''"
proof -
  note a = toFilename_resolution[where pf = node and item = "''http://h/files/my%20cat.png''"
      and p = "''/files/my%20cat.png''" and f = "''my cat.png''"]
  note b = toFilename_resolution[where pf = node and item = "''http://h/%zz''" and p = "''/%zz''"]
  note c = toFilename_resolution[where pf = node and item = "''  cat.png ''"
      and items = "[''http://h/files/cat.png'', ''cat.png'', ''  '', ''dog.png'', '' cat.png'']"
      and w = ex_xworld and n = 2 and w' = "\<lparr>x_files = {}, x_images = []\<rparr>"
      and rs = "[\<lparr>e_filename = ''cat.png'', fileDeleted = True, recordDeleted = True\<rparr>,
                \<lparr>e_filename = ''dog.png'', fileDeleted = False, recordDeleted = True\<rparr>]"]
  have c1: "toFilename node ''http://h/files/my%20cat.png'' = ''my cat.png''"
    using a[THEN conjunct1] by (simp add: node_sel ex_urls)
  have c2: "toFilename node ''http://h/%zz'' = trim ''http://h/%zz''"
    using b[THEN conjunct2, THEN conjunct1] by (simp add: node_sel ex_urls)
  have c3: "toFilename node ''  cat.png '' = ''cat.png''"
    using c[THEN conjunct2, THEN conjunct2, THEN conjunct1] by (simp add: node_sel ex_urls)
  have c4: "map e_filename [\<lparr>e_filename = ''cat.png'', fileDeleted = True, recordDeleted = True\<rparr>,
                   \<lparr>e_filename = ''dog.png'', fileDeleted = False, recordDeleted = True\<rparr>] =
     resolve_filenames node [''http://h/files/cat.png'', ''cat.png'', ''  '', ''dog.png'', '' cat.png'']"
    using c[THEN conjunct2, THEN conjunct2, THEN conjunct2, THEN conjunct2, THEN conjunct2] ex_delete
    by blast
  note d = toFilename_resolution[where pf = node and item = "''dog.png''"
      and items = "[''dog.png'', ''http://h/files/cat.png'']"]
  have o1: "resolve_filenames node [''dog.png'', ''http://h/files/cat.png''] = [''dog.png'', ''cat.png'']"
    by code_simp
  have o2: "toFilename node ''dog.png'' \<in> set (resolve_filenames node [''dog.png'', ''http://h/files/cat.png''])"
    by code_simp
  have "resolve_filenames node ([''dog.png'', ''http://h/files/cat.png''] @ [''dog.png'']) =
      resolve_filenames node [''dog.png'', ''http://h/files/cat.png'']"
    using d o2 by presburger
  then have c5: "resolve_filenames node ([''dog.png'', ''http://h/files/cat.png''] @ [''dog.png'']) =
     [''dog.png'', ''cat.png'']"
    using o1 by simp
  note e = toFilename_resolution[where name = "''my%20cat.png''" and dir = "''/files''"
      and k = 1]
  have c6: "basename ''/files/my%20cat.png/'' = ''my%20cat.png''"
    using e by simp
  show ?thesis
    using c1 c2 c3 c4 c5 c6 o1 o2 by (simp add: node_sel ex_urls)
qed

text \<open>
  Claim C8, as stated, makes the request fail with 400 exactly when the resolved filename
  set is empty. The handler tests the raw \<open>items\<close> array, not the resolved set: for the one
  blank item \<open>"   "\<close> nothing resolves, and the answer is 200 with an empty report.
\<close>

theorem delete_400_on_resolved_empty:
  "resolve_filenames node [''   ''] = [] \<and>
   delete_POST node (Some [''   '']) ex_xworld = (D200 [] 0, ex_xworld)"
  by (simp add: delete_POST_def resolve_filenames_def from_Set_def toFilename_def node_def
      sample_url_pathname_def trim_def is_space_def)

text \<open>
  Claim C8, amended. The request is answered with 400 exactly when \<open>items\<close> is missing, not
  an array, or empty. For a non-empty \<open>items\<close> array, when no database call throws, the
  answer is 200 with the report and its length: one entry per resolved filename, none when
  nothing resolves.
\<close>

theorem delete_400_iff_no_items:
  "((\<exists>msg. fst (delete_POST pf items w) = D400 msg) \<longleftrightarrow> items = None \<or> items = Some []) \<and>
   (items = Some xs \<and> xs \<noteq> [] \<and> (\<forall>n. \<not> db_throws pf n) \<longrightarrow>
      (\<exists>rs. fst (delete_POST pf items w) = D200 rs (length rs) \<and>
            map e_filename rs = resolve_filenames pf xs))"
proof (intro conjI impI)
  show "(\<exists>msg. fst (delete_POST pf items w) = D400 msg) \<longleftrightarrow> items = None \<or> items = Some []"
    by (cases items) (auto simp: delete_POST_def Let_def split: prod.splits sum.splits)
next
  assume a: "items = Some xs \<and> xs \<noteq> [] \<and> (\<forall>n. \<not> db_throws pf n)"
  then obtain rs w' where d: "delete_each pf (resolve_filenames pf xs) w = (Inr rs, w')"
    using delete_each_total[of pf "resolve_filenames pf xs" w] by blast
  have "fst (delete_POST pf items w) = D200 rs (length rs)"
    using a d by (simp add: delete_POST_def Let_def)
  moreover have "map e_filename rs = resolve_filenames pf xs"
    using d by (rule delete_each_names)
  ultimately show "\<exists>rs. fst (delete_POST pf items w) = D200 rs (length rs) \<and>
            map e_filename rs = resolve_filenames pf xs"
    by blast
qed

theorem delete_400_iff_no_items_witness:
  "fst (delete_POST node None ex_xworld) = D400 ''items array required'' \<and>
   fst (delete_POST node (Some []) ex_xworld) = D400 ''items array required'' \<and>
   [''dog.png''] \<noteq> ([] :: string list) \<and>
   (\<forall>n. \<not> db_throws node n) \<and>
   (\<exists>rs. fst (delete_POST node (Some [''dog.png'']) ex_xworld) = D200 rs (length rs) \<and>
         map e_filename rs = resolve_filenames node [''dog.png'']) \<and>
   fst (delete_POST node (Some [''dog.png'']) ex_xworld) =
     D200 [\<lparr>e_filename = ''dog.png'', fileDeleted = False, recordDeleted = True\<rparr>] 1"
proof -
  note a = delete_400_iff_no_items[where pf = node and items = "Some [''dog.png'']"
      and xs = "[''dog.png'']" and w = ex_xworld]
  have nt: "\<forall>n. \<not> db_throws node n"
    by (simp add: node_sel)
  have c: "\<exists>rs. fst (delete_POST node (Some [''dog.png'']) ex_xworld) = D200 rs (length rs) \<and>
         map e_filename rs = resolve_filenames node [''dog.png'']"
    using a[THEN conjunct2] nt by simp
  have "\<exists>msg. fst (delete_POST node None ex_xworld) = D400 msg"
    using delete_400_iff_no_items[where pf = node and items = None and w = ex_xworld] by blast
  then have d: "fst (delete_POST node None ex_xworld) = D400 ''items array required''"
    by (simp add: delete_POST_def)
  have e: "fst (delete_POST node (Some []) ex_xworld) = D400 ''items array required''"
    by (simp add: delete_POST_def)
  have f: "fst (delete_POST node (Some [''dog.png'']) ex_xworld) =
     D200 [\<lparr>e_filename = ''dog.png'', fileDeleted = False, recordDeleted = True\<rparr>] 1"
    by code_simp
  show ?thesis using c d e f nt by simp
qed

lemma downloadCsv_example:
  "downloadCsv [ex_table] =
     join [CHR 0x0A]
       [join '','' (map csv_quote [''filename'', ''url'', ''size'', ''type'', ''createdAt'', ''updatedAt'']),
        join '','' (map csv_quote [''a.png'', ''/files/a.png'', ''12'',
                                  ''text/plain; note='' @ [dq] @ ''a,b'' @ [dq], ''t1'', ''t2''])]"
  by code_simp

lemma csv_quote_example:
  "csv_quote (''text/plain; note='' @ [dq] @ ''a,b'' @ [dq]) =
     [dq] @ ''text/plain; note='' @ [dq, dq] @ ''a,b'' @ [dq, dq] @ [dq]"
  by code_simp

text \<open>
  Claim C9. The CSV export is to quote every value (embedded double quotes doubled, the
  field wrapped in double quotes) before joining with commas. \<open>downloadCsv\<close> of the table
  component does so; the \<open>format=csv\<close> branch of the list route joins the raw values. For a
  record whose \<open>mime\<close> is \<^verbatim>\<open>text/plain; note="a,b"\<close> the row of the route has the bare
  value, with its comma and its quotes, and differs from the quoted rows.
\<close>

theorem route_csv_unquoted:
  "route_csv [ex_comma] =
     ''filename,url,size,mime,createdAt,updatedAt'' @ [CHR 0x0A] @
     ''a.png,/api/images/file/a.png,12,text/plain; note='' @ [dq] @ ''a,b'' @ [dq] @ '',t1,t2'' \<and>
   route_csv [ex_comma] \<noteq>
     join [CHR 0x0A] (map (\<lambda>r. join '','' (map csv_quote r))
       [[''filename'', ''url'', ''size'', ''mime'', ''createdAt'', ''updatedAt''],
        [''a.png'', ''/api/images/file/a.png'', ''12'',
         ''text/plain; note='' @ [dq] @ ''a,b'' @ [dq], ''t1'', ''t2'']])"
  by code_simp

section \<open>Properties of the upload coordinator\<close>

declare dispatch.simps [simp del]

lemma js_less_Suc: "js_less a l \<Longrightarrow> js_less_eq (a + 1) l"
  by (cases l) simp_all

lemma js_less_eq_pred: "js_less_eq a l \<Longrightarrow> js_less_eq (a - 1) l"
  by (cases l) simp_all

lemma js_less_eq_less: "js_less_eq 1 l \<Longrightarrow> js_less 0 l"
  by (cases l) simp_all

lemma js_less_eq_trans: "js_less_eq a l \<Longrightarrow> b \<le> a \<Longrightarrow> js_less_eq b l"
  by (cases l) simp_all

lemma Math_max_clamp: "c \<noteq> NaN \<Longrightarrow> js_less_eq 1 (Math_max 1 c)"
  by (cases c) simp_all

lemma dispatch_props:
  "pool_inv items limit s \<Longrightarrow> resolved s = None \<Longrightarrow>
   (\<forall>t \<in> set (dispatch items limit s). pool_inv items limit t \<and> resolved t = None \<and> 0 < active t) \<and>
   (let t = last (s # dispatch items limit s)
    in \<not> (js_less (active t) limit \<and> idx t < length items) \<and> due items t = due items s \<and>
       settled t = settled s \<and> results t = results s \<and> resolved t = None \<and>
       (dispatch items limit s = [] \<longrightarrow> t = s))"
proof (induction items limit s rule: dispatch.induct)
  case (1 items limit s)
  show ?case
  proof (cases "js_less (active s) limit \<and> idx s < length items")
    case False
    then have e: "dispatch items limit s = []"
      by (auto simp: dispatch.simps[of items limit s])
    show ?thesis
      using False "1.prems" by (simp add: e)
  next
    case True
    define s' where "s' = s\<lparr>idx := idx s + 1, active := active s + 1,
                     running := running s @ [items ! idx s]\<rparr>"
    have d: "dispatch items limit s = s' # dispatch items limit s'"
      using True by (simp add: dispatch.simps[of items limit s] s'_def Let_def)
    have inv': "pool_inv items limit s'"
      using "1.prems" True by (auto simp: pool_inv_def s'_def js_less_Suc)
    have r': "resolved s' = None"
      using "1.prems" by (simp add: s'_def)
    have a': "0 < active s'"
      using "1.prems" by (simp add: pool_inv_def s'_def)
    have due': "due items s' = due items s"
      using True by (auto simp: due_def s'_def)
    note ih = "1.IH"[OF True s'_def inv' r']
    show ?thesis
      using ih inv' r' a' due' unfolding d
      by (auto simp: Let_def s'_def)
  qed
qed

lemma init_inv: "js_less_eq 0 limit \<Longrightarrow> pool_inv items limit init"
  by (simp add: pool_inv_def init_def)

lemma next_tick_props:
  assumes inv: "pool_inv items limit s" and r: "resolved s = None"
  shows "(\<forall>t \<in> set (next_tick items limit s). pool_inv items limit t) \<and>
         stable items limit (last (s # next_tick items limit s)) \<and>
         due items (last (s # next_tick items limit s)) = due items s \<and>
         settled (last (s # next_tick items limit s)) = settled s \<and>
         results (last (s # next_tick items limit s)) = results s"
proof (cases "length items \<le> idx s \<and> active s = 0")
  case True
  then have n: "next_tick items limit s = [s\<lparr>resolved := Some (results s)\<rparr>]"
    using r by (simp add: next_tick_def)
  show ?thesis
    using inv True unfolding n by (auto simp: pool_inv_def stable_def due_def)
next
  case False
  then have n: "next_tick items limit s = dispatch items limit s"
    by (auto simp: next_tick_def)
  note d = dispatch_props[OF inv r]
  let ?t = "last (s # dispatch items limit s)"
  from d have ex: "\<not> (js_less (active ?t) limit \<and> idx ?t < length items)"
    and du: "due items ?t = due items s" and se: "settled ?t = settled s"
    and re: "results ?t = results s" and same: "dispatch items limit s = [] \<longrightarrow> ?t = s"
    by (simp_all add: Let_def)
  have pos: "dispatch items limit s \<noteq> [] \<Longrightarrow> 0 < active ?t"
    using d by simp
  have il: "idx s \<le> length items"
    using inv by (simp add: pool_inv_def)
  have st: "stable items limit ?t"
  proof (cases "dispatch items limit s = []")
    case True
    with same have "?t = s" by blast
    with False il ex show ?thesis by (auto simp: stable_def)
  next
    case False
    from pos[OF this] ex show ?thesis by (auto simp: stable_def)
  qed
  show ?thesis
    unfolding n using d st du se re by blast
qed

lemma step_props:
  assumes inv: "pool_inv items limit s" and st: "stable items limit s"
    and ev: "step items worker limit ev s = Some tr"
  shows "tr \<noteq> [] \<and> (\<forall>t \<in> set tr. pool_inv items limit t) \<and> stable items limit (last tr) \<and>
         due items (last tr) + 1 = due items s"
proof (cases ev)
  case (Settle k r)
  with ev have k: "k < length (running s)" and tr: "tr = [settle worker k r s]"
    by (auto simp: step_def split: if_splits)
  from k inv have res: "resolved s = None"
    by (cases "resolved s") (auto simp: pool_inv_def)
  show ?thesis
    unfolding tr using inv st k res
    by (auto simp: settle_def Let_def pool_inv_def stable_def due_def)
next
  case (Finally k)
  define s1 where "s1 = s\<lparr>settled := take k (settled s) @ drop (Suc k) (settled s),
                         active := active s - 1\<rparr>"
  from Finally ev have k: "k < length (settled s)" and tr: "tr = s1 # next_tick items limit s1"
    by (auto simp: step_def s1_def Let_def split: if_splits)
  from k inv have res: "resolved s = None"
    by (cases "resolved s") (auto simp: pool_inv_def)
  have inv1: "pool_inv items limit s1"
    using inv k res by (auto simp: pool_inv_def s1_def js_less_eq_pred)
  have r1: "resolved s1 = None"
    using res by (simp add: s1_def)
  have d1: "due items s1 + 1 = due items s"
    using k by (auto simp: due_def s1_def)
  note n = next_tick_props[OF inv1 r1]
  show ?thesis
    unfolding tr using n inv1 d1 by auto
qed

lemma exec_props:
  assumes "pool_inv items limit s" and "stable items limit s"
    and "exec items worker limit s evs = Some tr"
  shows "(\<forall>t \<in> set tr. pool_inv items limit t) \<and> stable items limit (last (s # tr)) \<and>
         due items (last (s # tr)) + length evs = due items s"
  using assms
proof (induction evs arbitrary: s tr)
  case Nil
  then show ?case by simp
next
  case (Cons ev evs)
  from Cons.prems(3) obtain tr1 tr2 where s1: "step items worker limit ev s = Some tr1"
    and e2: "exec items worker limit (last tr1) evs = Some tr2" and tr: "tr = tr1 @ tr2"
    by (auto split: option.splits)
  note p = step_props[OF Cons.prems(1) Cons.prems(2) s1]
  from p have ne: "tr1 \<noteq> []" and i1: "pool_inv items limit (last tr1)"
    and st1: "stable items limit (last tr1)" by auto
  note ih = Cons.IH[OF i1 st1 e2]
  have l: "last (s # tr1 @ tr2) = last (last tr1 # tr2)"
    using ne by (cases tr2) auto
  show ?case
    unfolding tr l using p ih by auto
qed

lemma run_props:
  assumes lim: "js_less_eq 0 limit" and run: "runWithConcurrency items worker limit evs = Some tr"
  shows "tr \<noteq> [] \<and> (\<forall>t \<in> set tr. pool_inv items limit t) \<and> stable items limit (last tr) \<and>
         due items (last tr) + length evs = 2 * length items"
proof -
  let ?tr0 = "init # next_tick items limit init"
  from run obtain tr1 where e: "exec items worker limit (last ?tr0) evs = Some tr1"
    and tr: "tr = ?tr0 @ tr1"
    by (auto simp: runWithConcurrency_def Let_def)
  have r0: "resolved init = None" by (simp add: init_def)
  note n = next_tick_props[OF init_inv[OF lim, of items] r0]
  have i0: "pool_inv items limit (last ?tr0)"
    using n init_inv[OF lim, of items] by (cases "next_tick items limit init") auto
  have s0: "stable items limit (last ?tr0)" using n by blast
  have di: "due items init = 2 * length items"
    by (simp add: due_def init_def)
  from n have "due items (last ?tr0) = due items init" by blast
  with di have d0: "due items (last ?tr0) = 2 * length items" by simp
  note x = exec_props[OF i0 s0 e]
  have l: "last tr = last (last ?tr0 # tr1)"
    unfolding tr by (cases tr1) auto
  show ?thesis
    unfolding l using x n init_inv[OF lim, of items] d0 unfolding tr by auto
qed

lemma uploadOne_outcome:
  "uploadOne f r = Inr res \<Longrightarrow>
   o_filename res = file_name f \<and> (conforming r \<longrightarrow> terminal (o_status res))"
  by (cases r)
     (auto simp: uploadOne_def conforming_def terminal_def or_default_def Let_def
       split: list.splits option.splits if_splits)

lemma mset_remove_nth:
  "k < length xs \<Longrightarrow> mset (take k xs @ drop (Suc k) xs) + {#xs ! k#} = mset xs"
  by (metis add_mset_add_single id_take_nth_drop mset.simps(2) mset_append union_mset_add_mset_right)

lemma settle_outcomes:
  assumes o: "outcomes_inv items s" and k: "k < length (running s)" and c: "conforming r"
  shows "outcomes_inv items (settle uploadOne k r s)"
proof -
  define cur where "cur = running s ! k"
  define out where "out = (case uploadOne cur r of Inr res \<Rightarrow> res
      | Inl msg \<Rightarrow> \<lparr>o_filename = file_name cur, o_status = ''error'',
                     o_error = Some (or_default (Some msg) ''Error'')\<rparr>)"
  have n: "o_filename out = file_name cur" and t: "terminal (o_status out)"
    using uploadOne_outcome[of cur r] c
    by (auto simp: out_def terminal_def split: sum.splits)
  have m: "mset (map file_name (take k (running s) @ drop (Suc k) (running s))) + {#file_name cur#}
      = mset (map file_name (running s))"
    using mset_remove_nth[OF k] unfolding cur_def
    by (metis image_mset_single image_mset_union mset_map)
  have e: "settle uploadOne k r s =
      s\<lparr>running := take k (running s) @ drop (Suc k) (running s),
        settled := settled s @ [cur], results := results s @ [out]\<rparr>"
    unfolding settle_def Let_def cur_def out_def by (rule refl)
  have "mset (map o_filename (results s @ [out])) +
        mset (map file_name (take k (running s) @ drop (Suc k) (running s))) =
      mset (map o_filename (results s)) +
        (mset (map file_name (take k (running s) @ drop (Suc k) (running s))) + {#file_name cur#})"
    by (simp add: n)
  also have "\<dots> = mset (map o_filename (results s)) + mset (map file_name (running s))"
    by (simp only: m)
  also have "\<dots> = mset (map file_name (take (idx s) items))"
    using o by (simp add: outcomes_inv_def)
  finally have names: "mset (map o_filename (results s @ [out])) +
        mset (map file_name (take k (running s) @ drop (Suc k) (running s))) =
      mset (map file_name (take (idx s) items))" .
  have tms: "list_all (\<lambda>res. terminal (o_status res)) (results s @ [out])"
    using o t by (simp add: outcomes_inv_def)
  show ?thesis
    unfolding e outcomes_inv_def using names tms by simp
qed

lemma dispatch_outcomes:
  "outcomes_inv items s \<Longrightarrow> \<forall>t \<in> set (dispatch items limit s). outcomes_inv items t"
proof (induction items limit s rule: dispatch.induct)
  case (1 items limit s)
  show ?case
  proof (cases "js_less (active s) limit \<and> idx s < length items")
    case False
    then have "dispatch items limit s = []"
      by (auto simp: dispatch.simps[of items limit s])
    then show ?thesis by simp
  next
    case True
    define s' where "s' = s\<lparr>idx := idx s + 1, active := active s + 1,
                     running := running s @ [items ! idx s]\<rparr>"
    have d: "dispatch items limit s = s' # dispatch items limit s'"
      using True by (simp add: dispatch.simps[of items limit s] s'_def Let_def)
    have o': "outcomes_inv items s'"
      using "1.prems" True by (simp add: outcomes_inv_def s'_def take_Suc_conv_app_nth)
    show ?thesis
      unfolding d using o' "1.IH"[OF True s'_def o'] by simp
  qed
qed

lemma next_tick_outcomes:
  "outcomes_inv items s \<Longrightarrow> \<forall>t \<in> set (next_tick items limit s). outcomes_inv items t"
  using dispatch_outcomes[of items s limit]
  by (auto simp: next_tick_def outcomes_inv_def)

lemma step_outcomes:
  assumes o: "outcomes_inv items s" and c: "conforming_event ev"
    and ev: "step items uploadOne limit ev s = Some tr"
  shows "\<forall>t \<in> set tr. outcomes_inv items t"
proof (cases ev)
  case (Settle k r)
  with ev have k: "k < length (running s)" and tr: "tr = [settle uploadOne k r s]"
    by (auto simp: step_def split: if_splits)
  from c Settle have "conforming r" by (simp add: conforming_event_def)
  from settle_outcomes[OF o k this] show ?thesis unfolding tr by simp
next
  case (Finally k)
  define s1 where "s1 = s\<lparr>settled := take k (settled s) @ drop (Suc k) (settled s),
                         active := active s - 1\<rparr>"
  from Finally ev have tr: "tr = s1 # next_tick items limit s1"
    by (auto simp: step_def s1_def Let_def split: if_splits)
  have o1: "outcomes_inv items s1"
    using o by (simp add: outcomes_inv_def s1_def)
  show ?thesis
    unfolding tr using o1 next_tick_outcomes[OF o1, of limit] by simp
qed

lemma step_nonempty: "step items worker limit ev s = Some tr \<Longrightarrow> tr \<noteq> []"
  by (cases ev) (auto simp: step_def Let_def split: if_splits)

lemma exec_outcomes:
  assumes "outcomes_inv items s" and "\<forall>ev \<in> set evs. conforming_event ev"
    and "exec items uploadOne limit s evs = Some tr"
  shows "\<forall>t \<in> set tr. outcomes_inv items t"
  using assms
proof (induction evs arbitrary: s tr)
  case Nil
  then show ?case by simp
next
  case (Cons ev evs)
  from Cons.prems(3) obtain tr1 tr2 where s1: "step items uploadOne limit ev s = Some tr1"
    and e2: "exec items uploadOne limit (last tr1) evs = Some tr2" and tr: "tr = tr1 @ tr2"
    by (auto split: option.splits)
  from Cons.prems(2) have c: "conforming_event ev" and cs: "\<forall>ev \<in> set evs. conforming_event ev"
    by simp_all
  note p = step_outcomes[OF Cons.prems(1) c s1]
  have "last tr1 \<in> set tr1" using step_nonempty[OF s1] by simp
  with p have o1: "outcomes_inv items (last tr1)" by blast
  from Cons.IH[OF o1 cs e2] p show ?case unfolding tr by auto
qed

lemma run_outcomes:
  assumes c: "\<forall>ev \<in> set evs. conforming_event ev"
    and run: "runWithConcurrency items uploadOne limit evs = Some tr"
  shows "\<forall>t \<in> set tr. outcomes_inv items t"
proof -
  let ?tr0 = "init # next_tick items limit init"
  from run obtain tr1 where e: "exec items uploadOne limit (last ?tr0) evs = Some tr1"
    and tr: "tr = ?tr0 @ tr1"
    by (auto simp: runWithConcurrency_def Let_def)
  have o0: "outcomes_inv items init" by (simp add: outcomes_inv_def init_def)
  have a0: "\<forall>t \<in> set ?tr0. outcomes_inv items t"
    using o0 next_tick_outcomes[OF o0, of limit] by simp
  then have "outcomes_inv items (last ?tr0)"
    by (metis last_in_set list.discI)
  from exec_outcomes[OF this c e] a0 show ?thesis unfolding tr by auto
qed

lemma exec_append:
  "exec items worker limit s (evs @ evs') =
     (case exec items worker limit s evs of
        None \<Rightarrow> None
      | Some tr \<Rightarrow> map_option ((@) tr) (exec items worker limit (last (s # tr)) evs'))"
proof (induction evs arbitrary: s)
  case Nil
  show ?case by (cases "exec items worker limit s evs'") simp_all
next
  case (Cons ev evs)
  show ?case
  proof (cases "step items worker limit ev s")
    case None
    then show ?thesis by simp
  next
    case (Some tr1)
    have ne: "tr1 \<noteq> []" by (rule step_nonempty[OF Some])
    have l: "last (s # tr1 @ tr2) = last (last tr1 # tr2)" for tr2
      using ne by (cases tr2) auto
    show ?thesis
    proof (cases "exec items worker limit (last tr1) evs")
      case None
      with Some show ?thesis by (simp add: Cons.IH)
    next
      case (Some tr2)
      note e2 = this
      show ?thesis
      proof (cases "exec items worker limit (last (last tr1 # tr2)) evs'")
        case None
        with e2 \<open>step items worker limit ev s = Some tr1\<close> show ?thesis
          by (simp add: Cons.IH l del: last.simps last_append)
      next
        case (Some tr3)
        with e2 \<open>step items worker limit ev s = Some tr1\<close> show ?thesis
          by (simp add: Cons.IH l del: last.simps last_append)
      qed
    qed
  qed
qed

lemma pool_inv_idle:
  assumes "pool_inv items limit s" and "active s = 0"
  shows "running s = [] \<and> settled s = []"
proof -
  from assms(1) have "active s = int (length (running s) + length (settled s))"
    by (simp add: pool_inv_def)
  with assms(2) have "int (length (running s) + length (settled s)) = 0" by simp
  then have "length (running s) + length (settled s) = 0" by linarith
  then show ?thesis by simp
qed

lemma pool_progress:
  assumes inv: "pool_inv items limit s" and st: "stable items limit s" and lim: "js_less_eq 1 limit"
    and r: "resolved s = None"
  shows "running s \<noteq> [] \<or> settled s \<noteq> []"
proof (rule ccontr)
  assume "\<not> (running s \<noteq> [] \<or> settled s \<noteq> [])"
  then have e: "running s = []" "settled s = []" by simp_all
  with inv have a: "active s = 0" and il: "idx s \<le> length items"
    by (simp_all add: pool_inv_def)
  from st a js_less_eq_less[OF lim] have "\<not> idx s < length items" by (auto simp: stable_def)
  with il have "idx s = length items" by simp
  with st a r show False by (simp add: stable_def)
qed

lemma step_enabled:
  "running s \<noteq> [] \<Longrightarrow> step items worker limit (Settle 0 r) s \<noteq> None"
  "settled s \<noteq> [] \<Longrightarrow> step items worker limit (Finally 0) s \<noteq> None"
  by (simp_all add: step_def Let_def)

lemma run_snoc:
  assumes run: "runWithConcurrency items worker limit evs = Some tr"
    and stp: "step items worker limit ev (last tr) = Some tr1"
  shows "runWithConcurrency items worker limit (evs @ [ev]) = Some (tr @ tr1)"
proof -
  let ?tr0 = "init # next_tick items limit init"
  from run obtain tr2 where e: "exec items worker limit (last ?tr0) evs = Some tr2"
    and tr: "tr = ?tr0 @ tr2"
    by (auto simp: runWithConcurrency_def Let_def)
  have l: "last tr = last (last ?tr0 # tr2)"
    unfolding tr by (cases tr2) auto
  have "exec items worker limit (last ?tr0) (evs @ [ev]) = Some (tr2 @ tr1)"
    using e stp unfolding l by (simp add: exec_append)
  then show ?thesis
    by (simp add: runWithConcurrency_def Let_def tr)
qed

lemma ex_run:
  "runWithConcurrency ex_files uploadOne (Num 2) ex_schedule \<noteq> None"
  "map active (the (runWithConcurrency ex_files uploadOne (Num 2) ex_schedule)) =
     [0, 1, 2, 2, 2, 1, 2, 1, 1, 0, 0]"
  "map_option (map o_status) (resolved (last (the (runWithConcurrency ex_files uploadOne (Num 2) ex_schedule))))
     = Some [''overwritten'', ''error'', ''error'']"
  "map_option (map o_filename) (resolved (last (the (runWithConcurrency ex_files uploadOne (Num 2) ex_schedule))))
     = Some [''b.png'', ''a.png'', ''c.png'']"
  "list_all conforming_event ex_schedule"
  "length ex_schedule = 2 * length ex_files"
  by code_simp+

lemma ex_start:
  "startUpload ex_files (Num (- 3)) [] \<noteq> None"
  "map active (the (startUpload ex_files (Num (- 3)) [])) = [0, 1]"
  "ex_files \<noteq> []"
  by code_simp+

lemma express_answer_conforming: "conforming (express_answer x)"
  by (cases x) (simp_all add: express_answer_def conforming_def terminal_def)

text \<open>A limit that \<open>0 < limit\<close> fails for (\<open>NaN\<close>, or a number below 1): the first call of
  \<open>next\<close> dispatches nothing for a non-empty input, so no callback is ever due and the only
  run is the initial state.\<close>

lemma run_stuck:
  assumes ne: "items \<noteq> []" and l: "\<not> js_less 0 limit"
  shows "runWithConcurrency items worker limit evs = (if evs = [] then Some [init] else None)"
proof -
  have a0: "active init = 0"
    by (simp add: init_def)
  have d: "dispatch items limit init = []"
    using l by (simp add: dispatch.simps[of items limit init] a0)
  have n: "next_tick items limit init = []"
    using ne d by (simp add: next_tick_def init_def)
  have e: "exec items worker limit init evs = (if evs = [] then Some [] else None)"
  proof (cases evs)
    case Nil
    then show ?thesis by simp
  next
    case (Cons ev evs')
    have "step items worker limit ev init = None"
      by (cases ev) (simp_all add: step_def init_def)
    with Cons show ?thesis by simp
  qed
  show ?thesis
    by (simp add: runWithConcurrency_def n e)
qed

lemma ex_stuck:
  "startUpload ex_files NaN [] = Some [init]"
  "startUpload ex_files NaN [Settle 0 (Ok [])] = None"
  "startUpload ex_files NaN [Finally 0] = None"
  by code_simp+

text \<open>
  Claim C2. With a limit of at least 1, in every state the pool passes through (each
  iteration of the dispatch loop and each callback, under every schedule of settlements),
  \<open>active\<close> is the number of workers in flight, is not negative and does not exceed the
  limit. \<open>startUpload\<close> runs the pool with \<open>Math.max(1, concurrency)\<close>, which is at least 1
  for every \<open>concurrency\<close> but \<open>NaN\<close>, and then \<open>active\<close> never exceeds that limit. For
  \<open>NaN\<close>, which the input field gives for the text \<open>.5\<close>, the clamp fails:
  \<open>Math.max(1, NaN)\<close> is \<open>NaN\<close>, which is not at least 1; the test \<open>active < limit\<close> is false,
  so for a non-empty selection nothing is dispatched, no callback is ever due (the only
  run is the initial state, every schedule with a callback is refused) and the promise is
  never resolved.
\<close>

theorem concurrency_ceiling:
  "(js_less_eq 1 limit \<and> runWithConcurrency items worker limit evs = Some tr \<longrightarrow>
      (\<forall>s \<in> set tr. 0 \<le> active s \<and> js_less_eq (active s) limit \<and>
                     active s = int (length (running s) + length (settled s)))) \<and>
   (fs \<noteq> [] \<longrightarrow>
      startUpload fs concurrency evs' =
        runWithConcurrency fs uploadOne (Math_max 1 concurrency) evs') \<and>
   (concurrency \<noteq> NaN \<longrightarrow> js_less_eq 1 (Math_max 1 concurrency)) \<and>
   (concurrency \<noteq> NaN \<and> startUpload fs concurrency evs' = Some tr' \<longrightarrow>
      (\<forall>s \<in> set tr'. js_less_eq (active s) (Math_max 1 concurrency))) \<and>
   Math_max 1 NaN = NaN \<and> \<not> js_less_eq 1 (Math_max 1 NaN) \<and>
   (fs \<noteq> [] \<longrightarrow> startUpload fs NaN evs' = (if evs' = [] then Some [init] else None)) \<and>
   idx init = 0 \<and> active init = 0 \<and> resolved init = None"
proof (intro conjI impI)
  assume a: "js_less_eq 1 limit \<and> runWithConcurrency items worker limit evs = Some tr"
  then have "js_less_eq 0 limit" by (simp add: js_less_eq_trans[of 1 limit 0])
  from run_props[OF this, of items worker evs tr] a
  show "\<forall>s \<in> set tr. 0 \<le> active s \<and> js_less_eq (active s) limit \<and>
                     active s = int (length (running s) + length (settled s))"
    by (auto simp: pool_inv_def)
next
  assume "fs \<noteq> []"
  then show "startUpload fs concurrency evs' =
      runWithConcurrency fs uploadOne (Math_max 1 concurrency) evs'"
    by (simp add: startUpload_def)
next
  assume "concurrency \<noteq> NaN"
  then show "js_less_eq 1 (Math_max 1 concurrency)"
    by (rule Math_max_clamp)
next
  assume a: "concurrency \<noteq> NaN \<and> startUpload fs concurrency evs' = Some tr'"
  show "\<forall>s \<in> set tr'. js_less_eq (active s) (Math_max 1 concurrency)"
  proof (cases "fs = []")
    case True
    with a show ?thesis by (simp add: startUpload_def)
  next
    case False
    with a have r: "runWithConcurrency fs uploadOne (Math_max 1 concurrency) evs' = Some tr'"
      by (simp add: startUpload_def)
    from a have "js_less_eq 1 (Math_max 1 concurrency)"
      by (simp add: Math_max_clamp)
    then have "js_less_eq 0 (Math_max 1 concurrency)"
      by (simp add: js_less_eq_trans[of 1 _ 0])
    from run_props[OF this r] show ?thesis by (auto simp: pool_inv_def)
  qed
next
  assume "fs \<noteq> []"
  then show "startUpload fs NaN evs' = (if evs' = [] then Some [init] else None)"
    by (simp add: startUpload_def run_stuck)
qed (simp_all add: init_def)

theorem concurrency_ceiling_witness:
  "js_less_eq 1 (Num 2) \<and>
   runWithConcurrency ex_files uploadOne (Num 2) ex_schedule \<noteq> None \<and>
   map active (the (runWithConcurrency ex_files uploadOne (Num 2) ex_schedule)) =
     [0, 1, 2, 2, 2, 1, 2, 1, 1, 0, 0] \<and>
   list_all (\<lambda>s. 0 \<le> active s \<and> active s \<le> 2)
     (the (runWithConcurrency ex_files uploadOne (Num 2) ex_schedule)) \<and>
   ex_files \<noteq> [] \<and> Num (- 3) \<noteq> NaN \<and>
   startUpload ex_files (Num (- 3)) [] = runWithConcurrency ex_files uploadOne (Num 1) [] \<and>
   map active (the (startUpload ex_files (Num (- 3)) [])) = [0, 1] \<and>
   list_all (\<lambda>s. active s \<le> 1) (the (startUpload ex_files (Num (- 3)) [])) \<and>
   startUpload ex_files NaN [] = Some [init] \<and>
   startUpload ex_files NaN [Settle 0 (Ok [])] = None \<and>
   startUpload ex_files NaN [Finally 0] = None"
proof -
  let ?tr = "the (runWithConcurrency ex_files uploadOne (Num 2) ex_schedule)"
  let ?tr' = "the (startUpload ex_files (Num (- 3)) [])"
  have r: "runWithConcurrency ex_files uploadOne (Num 2) ex_schedule = Some ?tr"
    using ex_run(1) by simp
  have r': "startUpload ex_files (Num (- 3)) [] = Some ?tr'"
    using ex_start(1) by simp
  note t = concurrency_ceiling[where limit = "Num 2" and items = ex_files and worker = uploadOne
      and evs = ex_schedule and tr = ?tr and fs = ex_files and concurrency = "Num (- 3)"
      and evs' = "[]" and tr' = ?tr']
  have c1: "list_all (\<lambda>s. 0 \<le> active s \<and> active s \<le> 2) ?tr"
    using t[THEN conjunct1] r unfolding list_all_iff by fastforce
  have c2: "startUpload ex_files (Num (- 3)) [] = runWithConcurrency ex_files uploadOne (Num 1) []"
    using t[THEN conjunct2, THEN conjunct1] ex_start(3) by simp
  have c3: "list_all (\<lambda>s. active s \<le> 1) ?tr'"
    using t[THEN conjunct2, THEN conjunct2, THEN conjunct2, THEN conjunct1] r'
    unfolding list_all_iff by fastforce
  have c4: "startUpload ex_files NaN [] = Some [init]"
    using t[THEN conjunct2, THEN conjunct2, THEN conjunct2, THEN conjunct2, THEN conjunct2,
        THEN conjunct2, THEN conjunct1] ex_start(3) by simp
  show ?thesis
    using c1 c2 c3 c4 ex_run(1,2) ex_start ex_stuck by simp
qed

lemma run_complete:
  assumes lim: "js_less_eq 1 limit"
    and run: "runWithConcurrency items uploadOne limit evs = Some tr"
    and c: "\<forall>ev \<in> set evs. conforming_event ev"
  shows "(\<forall>s \<in> set tr. \<forall>rs. resolved s = Some rs \<longrightarrow>
          length rs = length items \<and>
          mset (map o_filename rs) = mset (map file_name items) \<and>
          list_all (\<lambda>res. terminal (o_status res)) rs \<and>
          running s = [] \<and> settled s = [] \<and> idx s = length items) \<and>
      length evs \<le> 2 * length items \<and>
      (resolved (last tr) \<noteq> None \<longleftrightarrow> length evs = 2 * length items) \<and>
      (resolved (last tr) = None \<longrightarrow>
         (\<exists>ev tr'. conforming_event ev \<and>
                   runWithConcurrency items uploadOne limit (evs @ [ev]) = Some tr'))"
proof (intro conjI impI)
  from lim have lim0: "js_less_eq 0 limit" by (simp add: js_less_eq_trans[of 1 limit 0])
  note p = run_props[OF lim0 run]
  note q = run_outcomes[OF c run]
  from p have ne: "tr \<noteq> []" and inv: "\<forall>t \<in> set tr. pool_inv items limit t"
    and st: "stable items limit (last tr)"
    and du: "due items (last tr) + length evs = 2 * length items" by blast+
  from ne inv have invl: "pool_inv items limit (last tr)" by simp
  show "\<forall>s \<in> set tr. \<forall>rs. resolved s = Some rs \<longrightarrow>
          length rs = length items \<and>
          mset (map o_filename rs) = mset (map file_name items) \<and>
          list_all (\<lambda>res. terminal (o_status res)) rs \<and>
          running s = [] \<and> settled s = [] \<and> idx s = length items"
  proof (intro ballI allI impI)
    fix s rs
    assume s: "s \<in> set tr" and r: "resolved s = Some rs"
    from inv s r have i: "rs = results s" "idx s = length items" "active s = 0"
      "active s = int (length (running s) + length (settled s))"
      "length (results s) + length (running s) = idx s"
      by (auto simp: pool_inv_def)
    from inv s have "pool_inv items limit s" by blast
    from pool_inv_idle[OF this i(3)] have e: "running s = []" "settled s = []" by simp_all
    from q s have o: "outcomes_inv items s" by blast
    show "length rs = length items \<and>
          mset (map o_filename rs) = mset (map file_name items) \<and>
          list_all (\<lambda>res. terminal (o_status res)) rs \<and>
          running s = [] \<and> settled s = [] \<and> idx s = length items"
      using i e o by (simp add: outcomes_inv_def)
  qed
  show "length evs \<le> 2 * length items"
    using du by simp
  have iff: "resolved (last tr) \<noteq> None \<longleftrightarrow> due items (last tr) = 0"
  proof
    assume "resolved (last tr) \<noteq> None"
    then obtain rs where "resolved (last tr) = Some rs" by blast
    with invl have "idx (last tr) = length items" "active (last tr) = 0"
      by (auto simp: pool_inv_def)
    with pool_inv_idle[OF invl] show "due items (last tr) = 0"
      by (simp add: due_def)
  next
    assume d0: "due items (last tr) = 0"
    show "resolved (last tr) \<noteq> None"
    proof
      assume "resolved (last tr) = None"
      from pool_progress[OF invl st lim this] d0 show False
        by (auto simp: due_def)
    qed
  qed
  show "resolved (last tr) \<noteq> None \<longleftrightarrow> length evs = 2 * length items"
    using iff du by auto
  show "\<exists>ev tr'. conforming_event ev \<and>
                   runWithConcurrency items uploadOne limit (evs @ [ev]) = Some tr'"
    if "resolved (last tr) = None"
  proof -
    from pool_progress[OF invl st lim that] show ?thesis
    proof
      assume "running (last tr) \<noteq> []"
      from step_enabled(1)[OF this, of items uploadOne limit "Ok []"]
      obtain tr1 where "step items uploadOne limit (Settle 0 (Ok [])) (last tr) = Some tr1"
        by blast
      from run_snoc[OF run this] show ?thesis
        by (intro exI[of _ "Settle 0 (Ok [])"] exI conjI) (simp_all add: conforming_event_def conforming_def)
    next
      assume "settled (last tr) \<noteq> []"
      from step_enabled(2)[OF this, of items uploadOne limit]
      obtain tr1 where "step items uploadOne limit (Finally 0) (last tr) = Some tr1"
        by blast
      from run_snoc[OF run this] show ?thesis
        by (intro exI[of _ "Finally 0"] exI conjI) (simp_all add: conforming_event_def)
    qed
  qed
qed



text \<open>
  Claim C3. Run with \<open>uploadOne\<close> and a limit of at least 1, under every schedule of
  settlements whose answers carry a terminal status or none: whenever the promise is
  resolved, it is resolved with exactly one outcome per input file (the same filenames,
  with multiplicity), every outcome has a terminal status, every file has been
  dispatched and no worker is running or awaits its \<open>finally\<close> callback. A schedule has at most
  two callbacks per file, the promise is resolved exactly when all of them have run, and
  while it is not resolved some callback is due, so the run can always go on. The same
  holds of \<open>startUpload\<close> for every value of \<open>concurrency\<close>: its limit is at least 1, except
  for \<open>NaN\<close>, where no worker is dispatched, no callback runs and the promise is never
  resolved. For the empty input the promise is resolved at once with the empty sequence.
\<close>

theorem upload_completeness:
  "(js_less_eq 1 limit \<and> runWithConcurrency items uploadOne limit evs = Some tr \<and>
    (\<forall>ev \<in> set evs. conforming_event ev) \<longrightarrow>
      (\<forall>s \<in> set tr. \<forall>rs. resolved s = Some rs \<longrightarrow>
          length rs = length items \<and>
          mset (map o_filename rs) = mset (map file_name items) \<and>
          list_all (\<lambda>res. terminal (o_status res)) rs \<and>
          running s = [] \<and> settled s = [] \<and> idx s = length items) \<and>
      length evs \<le> 2 * length items \<and>
      (resolved (last tr) \<noteq> None \<longleftrightarrow> length evs = 2 * length items) \<and>
      (resolved (last tr) = None \<longrightarrow>
         (\<exists>ev tr'. conforming_event ev \<and>
                   runWithConcurrency items uploadOne limit (evs @ [ev]) = Some tr'))) \<and>
   (fs \<noteq> [] \<and> startUpload fs concurrency evs' = Some tr' \<and>
    (\<forall>ev \<in> set evs'. conforming_event ev) \<longrightarrow>
      (\<forall>s \<in> set tr'. \<forall>rs. resolved s = Some rs \<longrightarrow>
          length rs = length fs \<and>
          mset (map o_filename rs) = mset (map file_name fs) \<and>
          list_all (\<lambda>res. terminal (o_status res)) rs \<and>
          running s = [] \<and> settled s = []) \<and>
      (resolved (last tr') \<noteq> None \<longleftrightarrow> length evs' = 2 * length fs)) \<and>
   runWithConcurrency [] worker limit' [] = Some [init, init\<lparr>resolved := Some []\<rparr>]"
proof (intro conjI)
  show "runWithConcurrency [] worker limit' [] = Some [init, init\<lparr>resolved := Some []\<rparr>]"
    by (simp add: runWithConcurrency_def next_tick_def init_def)
next
  show "js_less_eq 1 limit \<and> runWithConcurrency items uploadOne limit evs = Some tr \<and>
    (\<forall>ev \<in> set evs. conforming_event ev) \<longrightarrow>
      (\<forall>s \<in> set tr. \<forall>rs. resolved s = Some rs \<longrightarrow>
          length rs = length items \<and>
          mset (map o_filename rs) = mset (map file_name items) \<and>
          list_all (\<lambda>res. terminal (o_status res)) rs \<and>
          running s = [] \<and> settled s = [] \<and> idx s = length items) \<and>
      length evs \<le> 2 * length items \<and>
      (resolved (last tr) \<noteq> None \<longleftrightarrow> length evs = 2 * length items) \<and>
      (resolved (last tr) = None \<longrightarrow>
         (\<exists>ev tr'. conforming_event ev \<and>
                   runWithConcurrency items uploadOne limit (evs @ [ev]) = Some tr'))"
    using run_complete[of limit items evs tr] by blast
next
  show "fs \<noteq> [] \<and> startUpload fs concurrency evs' = Some tr' \<and>
    (\<forall>ev \<in> set evs'. conforming_event ev) \<longrightarrow>
      (\<forall>s \<in> set tr'. \<forall>rs. resolved s = Some rs \<longrightarrow>
          length rs = length fs \<and>
          mset (map o_filename rs) = mset (map file_name fs) \<and>
          list_all (\<lambda>res. terminal (o_status res)) rs \<and>
          running s = [] \<and> settled s = []) \<and>
      (resolved (last tr') \<noteq> None \<longleftrightarrow> length evs' = 2 * length fs)"
  proof
    assume a: "fs \<noteq> [] \<and> startUpload fs concurrency evs' = Some tr' \<and>
      (\<forall>ev \<in> set evs'. conforming_event ev)"
    then have r: "runWithConcurrency fs uploadOne (Math_max 1 concurrency) evs' = Some tr'"
      and ne: "fs \<noteq> []"
      by (auto simp: startUpload_def)
    from a have c: "\<forall>ev \<in> set evs'. conforming_event ev" by blast
    show "(\<forall>s \<in> set tr'. \<forall>rs. resolved s = Some rs \<longrightarrow>
          length rs = length fs \<and>
          mset (map o_filename rs) = mset (map file_name fs) \<and>
          list_all (\<lambda>res. terminal (o_status res)) rs \<and>
          running s = [] \<and> settled s = []) \<and>
      (resolved (last tr') \<noteq> None \<longleftrightarrow> length evs' = 2 * length fs)"
    proof (cases "concurrency = NaN")
      case False
      then have l: "js_less_eq 1 (Math_max 1 concurrency)" by (rule Math_max_clamp)
      from run_complete[OF l r c] show ?thesis by blast
    next
      case True
      have "runWithConcurrency fs uploadOne NaN evs' = (if evs' = [] then Some [init] else None)"
        by (rule run_stuck[OF ne]) simp
      with r True have e: "evs' = []" and t: "tr' = [init]"
        by (simp_all split: if_splits)
      show ?thesis
        using ne by (simp add: e t init_def)
    qed
  qed
qed

theorem upload_completeness_witness:
  "js_less_eq 1 (Num 2) \<and>
   runWithConcurrency ex_files uploadOne (Num 2) ex_schedule \<noteq> None \<and>
   list_all conforming_event ex_schedule \<and>
   length ex_schedule = 2 * length ex_files \<and>
   resolved (last (the (runWithConcurrency ex_files uploadOne (Num 2) ex_schedule))) \<noteq> None \<and>
   map_option (map o_status) (resolved (last (the (runWithConcurrency ex_files uploadOne (Num 2) ex_schedule))))
     = Some [''overwritten'', ''error'', ''error''] \<and>
   map_option (map o_filename) (resolved (last (the (runWithConcurrency ex_files uploadOne (Num 2) ex_schedule))))
     = Some [''b.png'', ''a.png'', ''c.png''] \<and>
   resolved (last (the (runWithConcurrency ex_files uploadOne (Num 2) (take 5 ex_schedule)))) = None \<and>
   (\<exists>ev tr'. runWithConcurrency ex_files uploadOne (Num 2) (take 5 ex_schedule @ [ev]) = Some tr') \<and>
   ex_files \<noteq> [] \<and>
   startUpload ex_files (Num 2) ex_schedule \<noteq> None \<and>
   resolved (last (the (startUpload ex_files (Num 2) ex_schedule))) \<noteq> None"
proof -
  let ?tr = "the (runWithConcurrency ex_files uploadOne (Num 2) ex_schedule)"
  let ?tr5 = "the (runWithConcurrency ex_files uploadOne (Num 2) (take 5 ex_schedule))"
  have r: "runWithConcurrency ex_files uploadOne (Num 2) ex_schedule = Some ?tr"
    using ex_run(1) by simp
  have c: "\<forall>ev \<in> set ex_schedule. conforming_event ev"
    using ex_run(5) by (simp add: list_all_iff)
  have r5n: "runWithConcurrency ex_files uploadOne (Num 2) (take 5 ex_schedule) \<noteq> None"
    by code_simp
  then have r5: "runWithConcurrency ex_files uploadOne (Num 2) (take 5 ex_schedule) = Some ?tr5"
    by simp
  have c5: "\<forall>ev \<in> set (take 5 ex_schedule). conforming_event ev"
    using c by (meson in_set_takeD)
  have l5: "length (take 5 ex_schedule) \<noteq> 2 * length ex_files"
    by code_simp
  note t = upload_completeness[where limit = "Num 2" and items = ex_files and evs = ex_schedule
      and tr = ?tr, THEN conjunct1]
  note t5 = upload_completeness[where limit = "Num 2" and items = ex_files
      and evs = "take 5 ex_schedule" and tr = ?tr5, THEN conjunct1]
  have c1: "resolved (last ?tr) \<noteq> None"
    using t r c ex_run(6) by simp
  have c2: "resolved (last ?tr5) = None"
    using t5 r5 c5 l5 by simp
  have c3: "\<exists>ev tr'. runWithConcurrency ex_files uploadOne (Num 2) (take 5 ex_schedule @ [ev]) = Some tr'"
  proof -
    have "js_less_eq 1 (Num 2)" by simp
    with t5 r5 c5 c2 show ?thesis by blast
  qed
  have sn: "startUpload ex_files (Num 2) ex_schedule \<noteq> None"
    by code_simp
  then have s: "startUpload ex_files (Num 2) ex_schedule = Some (the (startUpload ex_files (Num 2) ex_schedule))"
    by simp
  note t2 = upload_completeness[where fs = ex_files and concurrency = "Num 2" and evs' = ex_schedule
      and tr' = "the (startUpload ex_files (Num 2) ex_schedule)", THEN conjunct2, THEN conjunct1]
  have c4: "resolved (last (the (startUpload ex_files (Num 2) ex_schedule))) \<noteq> None"
    using t2 s c ex_start(3) ex_run(6) by blast
  show ?thesis
    using c1 c2 c3 c4 sn ex_start(3) ex_run by simp
qed


end
